theory Spec2Isabelle
  imports Main "HOL-Library.AList"
begin

unbundle bit_operations_syntax

section \<open>Python string primitives used by mk\_links.py\<close>

text \<open>
  Strings are modelled as \<^typ>\<open>string\<close>, one \<^typ>\<open>char\<close> per character of the
  Python \<open>str\<close>; only ASCII characters are given a meaning (digits, white space).
  Python integers are \<^typ>\<open>int\<close>.
\<close>

text \<open>\<open>s.rfind(c)\<close>: the index of the last occurrence of \<open>c\<close>, or \<open>-1\<close>.\<close>

fun rfind :: "char \<Rightarrow> string \<Rightarrow> int" where
  "rfind c [] = -1"
| "rfind c (x # xs) =
     (let r = rfind c xs in
      if r \<ge> 0 then r + 1 else if x = c then 0 else -1)"

text \<open>
  \<open>posixpath.splitext\<close>: the extension starts at the last dot after the last slash,
  unless only dots precede it in the file name.
\<close>

definition splitext :: "string \<Rightarrow> string \<times> string" where
  "splitext p =
     (let sepIndex = rfind (CHR ''/'') p;
          dotIndex = rfind (CHR ''.'') p
      in if dotIndex > sepIndex \<and>
            (\<exists>c \<in> set (take (nat (dotIndex - (sepIndex + 1))) (drop (nat (sepIndex + 1)) p)).
               c \<noteq> CHR ''.'')
         then (take (nat dotIndex) p, drop (nat dotIndex) p)
         else (p, []))"

text \<open>\<open>s.split(sep)\<close> for a one-character separator: empty pieces are kept.\<close>

fun split_on :: "char \<Rightarrow> string \<Rightarrow> string list" where
  "split_on c [] = [[]]"
| "split_on c (x # xs) =
     (if x = c then [] # split_on c xs
      else (case split_on c xs of
              [] \<Rightarrow> [[x]]
            | w # ws \<Rightarrow> (x # w) # ws))"

text \<open>White space as \<open>str.split()\<close>, \<open>str.rstrip()\<close> and \<open>int()\<close> see it (ASCII part).\<close>

definition py_isspace :: "char \<Rightarrow> bool" where
  "py_isspace c =
     (let n = (of_char c :: nat) in (9 \<le> n \<and> n \<le> 13) \<or> (28 \<le> n \<and> n \<le> 32))"

definition rstrip :: "string \<Rightarrow> string" where
  "rstrip s = rev (dropWhile py_isspace (rev s))"

text \<open>\<open>s.split()\<close>: the maximal runs of non-space characters.\<close>

fun py_split_acc :: "string \<Rightarrow> string \<Rightarrow> string list" where
  "py_split_acc w [] = (if w = [] then [] else [rev w])"
| "py_split_acc w (x # xs) =
     (if py_isspace x
      then (if w = [] then py_split_acc [] xs else rev w # py_split_acc [] xs)
      else py_split_acc (x # w) xs)"

definition py_split :: "string \<Rightarrow> string list" where
  "py_split s = py_split_acc [] s"

text \<open>\<open>'\_'.join(parts)\<close>.\<close>

fun join_us :: "string list \<Rightarrow> string" where
  "join_us [] = []"
| "join_us [w] = w"
| "join_us (w # ws) = w @ CHR ''_'' # join_us ws"

text \<open>\<open>re.compile('#.*').sub('', line)\<close>: on one line, everything from the first
  \<open>#\<close> up to the end of the line is dropped; the newline stays.\<close>

definition strip_comment :: "string \<Rightarrow> string" where
  "strip_comment line =
     takeWhile (\<lambda>c. c \<noteq> CHR ''#'') line @
     dropWhile (\<lambda>c. c \<noteq> CHR 0x0A) (dropWhile (\<lambda>c. c \<noteq> CHR ''#'') line)"

subsection \<open>\<open>int(s)\<close> and \<open>int(s, 16)\<close>\<close>

datatype pyerror = ValueError | IndexError | UnboundLocalError

definition digit_val :: "char \<Rightarrow> nat option" where
  "digit_val c =
     (let n = (of_char c :: nat) in
      if 48 \<le> n \<and> n \<le> 57 then Some (n - 48)
      else if 97 \<le> n \<and> n \<le> 122 then Some (n - 87)
      else if 65 \<le> n \<and> n \<le> 90 then Some (n - 55)
      else None)"

text \<open>
  The digits of a literal: at least one digit, single underscores only between digits.
  \<open>need\<close> says that the next character has to be a digit.
\<close>

fun py_digits :: "nat \<Rightarrow> bool \<Rightarrow> int \<Rightarrow> string \<Rightarrow> int option" where
  "py_digits b need acc [] = (if need then None else Some acc)"
| "py_digits b need acc (c # cs) =
     (if c = CHR ''_'' then (if need then None else py_digits b True acc cs)
      else (case digit_val c of
              None \<Rightarrow> None
            | Some d \<Rightarrow> (if d < b then py_digits b False (acc * int b + int d) cs else None)))"

definition py_int :: "nat \<Rightarrow> string \<Rightarrow> pyerror + int" where
  "py_int b s =
     (let t = rstrip (dropWhile py_isspace s);
          neg = (t \<noteq> [] \<and> hd t = CHR ''-'');
          u = (if t \<noteq> [] \<and> (hd t = CHR ''+'' \<or> hd t = CHR ''-'') then tl t else t);
          v = (if b = 16 \<and> length u \<ge> 2 \<and> hd u = CHR ''0'' \<and>
                  (u ! 1 = CHR ''x'' \<or> u ! 1 = CHR ''X'')
               then (let w = drop 2 u in
                     if w \<noteq> [] \<and> hd w = CHR ''_'' then tl w else w)
               else u)
      in case py_digits b True 0 v of
           None \<Rightarrow> Inl ValueError
         | Some n \<Rightarrow> Inr (if neg then - n else n))"

text \<open>\<open>xs[i]\<close> for a non-negative constant index.\<close>

definition py_index :: "'a list \<Rightarrow> nat \<Rightarrow> pyerror + 'a" where
  "py_index xs i = (if i < length xs then Inr (xs ! i) else Inl IndexError)"

definition bindE :: "pyerror + 'a \<Rightarrow> ('a \<Rightarrow> pyerror + 'b) \<Rightarrow> pyerror + 'b" where
  "bindE m f = (case m of Inl e \<Rightarrow> Inl e | Inr v \<Rightarrow> f v)"

section \<open>Reference expansion (makeLinks, lines 209 to 236)\<close>

record options =
  full :: bool
  short :: bool
  fold :: bool
  addfold :: bool
  useServiceNameLinks :: bool
  useHardLinks :: bool
  cleanAll :: bool

text \<open>
  \<open>servRefPartsFold\<close> is a local variable of \<open>makeLinks\<close>: it is unbound until one of
  the assignments on lines 222, 227 and 234 runs, and it keeps its value from one
  record to the next. The expansion takes its value (\<open>None\<close> is unbound) and returns
  the new one.
\<close>

type_synonym foldvar = "string list option"

text \<open>Lines 219 to 229: the \<open>addfold\<close> block.\<close>

definition addfold_block ::
  "string list \<Rightarrow> string list list \<times> foldvar \<Rightarrow> pyerror + (string list list \<times> foldvar)" where
  "addfold_block servRefParts st =
     bindE (py_index servRefParts 0) (\<lambda>f0.
     bindE (py_int 10 f0) (\<lambda>reftype.
     if reftype AND NOT 0x0100 \<noteq> 1 then Inr st
     else
       bindE (py_index servRefParts 2) (\<lambda>f2.
       bindE (py_int 16 f2) (\<lambda>stype.
       let st1 = (if stype \<notin> {0x1, 0x2, 0xA}
                  then (fst st @ [servRefParts[2 := ''1'']], Some (servRefParts[2 := ''1'']))
                  else st)
       in if stype \<in> {0x2, 0xA} then
            bindE (py_index servRefParts 5) (\<lambda>f5.
            bindE (py_int 16 f5) (\<lambda>v5.
            if v5 \<in> {0x1010, 0x3201} then
              bindE (py_index servRefParts 3) (\<lambda>f3.
              bindE (py_int 16 f3) (\<lambda>v3.
              if v3 AND 0xF = 0xF then
                (let alias = servRefParts[2 := (if stype = 0xA then ''2'' else ''A'')]
                 in Inr (fst st1 @ [alias], Some alias))
              else Inr st1))
            else Inr st1))
          else Inr st1))))"

text \<open>Lines 231 to 236: the \<open>fold\<close> block. The append on line 236 is outside the
  test of the service type.\<close>

definition fold_block ::
  "string list \<Rightarrow> string list list \<times> foldvar \<Rightarrow> pyerror + (string list list \<times> foldvar)" where
  "fold_block servRefParts st =
     bindE (py_index servRefParts 0) (\<lambda>f0.
     bindE (py_int 10 f0) (\<lambda>reftype.
     if reftype AND NOT 0x0100 \<noteq> 1 then Inr st
     else
       bindE (py_index servRefParts 2) (\<lambda>f2.
       bindE (py_int 16 f2) (\<lambda>stype.
       let fv = (if stype \<notin> {0x1, 0x2, 0xA} then Some (servRefParts[2 := ''1'']) else snd st)
       in case fv of
            None \<Rightarrow> Inl UnboundLocalError
          | Some servRefPartsFold \<Rightarrow> Inr (fst st @ [servRefPartsFold], fv)))))"

text \<open>Lines 210 to 236: the list \<open>servRefs\<close> of one record.\<close>

definition expand ::
  "options \<Rightarrow> foldvar \<Rightarrow> string \<Rightarrow> string \<Rightarrow> pyerror + (string list list \<times> foldvar)" where
  "expand opts fv servRef serviceName =
     (let servRefParts = take 10 (split_on (CHR '':'') servRef);
          r1 = (if useServiceNameLinks opts then [[serviceName]] else []);
          r2 = (if full opts \<or> addfold opts then r1 @ [servRefParts] else r1);
          r3 = (if short opts then r2 @ [take 1 servRefParts @ take 4 (drop 3 servRefParts)]
                else r2)
      in bindE (if addfold opts then addfold_block servRefParts (r3, fv) else Inr (r3, fv))
           (\<lambda>st. if fold opts then fold_block servRefParts st else Inr st))"

text \<open>Line 239: the name of the link of one element of \<open>servRefs\<close>.\<close>

definition target_name :: "string list \<Rightarrow> string" where
  "target_name srp = join_us srp @ ''.png''"

section \<open>The file system as the program sees it\<close>

text \<open>
  A link identity is the pair \<open>(st_dev, st_ino)\<close> that \<open>getLinkRef\<close> returns.

  The output directory \<open>piconPath\<close> is a finite table from the names that \<open>listdir\<close>
  returns to what is found under that name: a regular file (a directory entry for an
  inode), a symbolic link with its contents, or something else (a directory, a socket).
  The table is an association list with distinct names, in the order of \<open>listdir\<close>.
  A path \<open>path.join(piconPath, name)\<close> is identified with \<open>name\<close>: two different
  names are two different directory entries.

  Everything outside that table is the environment, which one run does not change:
  \<^item> \<open>stat_rel p\<close> is the identity that \<open>os.stat\<close> finds at the path \<open>p\<close> taken relative
    to the output directory (\<open>None\<close>: \<open>stat\<close> raises), as it is for the contents of a
    symbolic link placed in the output directory and for \<open>channel_picons/<file>\<close>;
    \<open>isfile_rel p\<close> is \<open>path.isfile\<close> there;
  \<^item> \<open>ext_links r\<close> is the number of directory entries for the inode \<open>r\<close> that are not
    in the output directory, so that \<open>st_nlink\<close> of \<open>r\<close> is \<open>ext_links r\<close> plus the
    number of names of the output directory that are entries for \<open>r\<close>;
  \<^item> \<open>chan_listing\<close> is \<open>listdir\<close> of \<open>channel_picons\<close> (\<open>None\<close>: it raises), and
    \<open>listdir_ok\<close> says whether \<open>listdir\<close> of the output directory succeeds;
  \<^item> \<open>rm_ok name\<close> and \<open>ln_ok name\<close> say whether the operating system lets the process
    remove, or create, the entry \<open>name\<close> of the output directory;
  \<^item> \<open>index_ok\<close> says whether \<open>index.html\<close> can be opened for writing.
\<close>

type_synonym linkref = "nat \<times> nat"

datatype dirent = Reg linkref | Sym string | Other linkref

type_synonym dirmap = "(string \<times> dirent) list"

record env =
  chan_listing :: "string list option"
  isfile_rel :: "string \<Rightarrow> bool"
  stat_rel :: "string \<Rightarrow> linkref option"
  ext_links :: "linkref \<Rightarrow> nat"
  listdir_ok :: bool
  rm_ok :: "string \<Rightarrow> bool"
  ln_ok :: "string \<Rightarrow> bool"
  index_ok :: bool

definition path_lexists :: "dirmap \<Rightarrow> string \<Rightarrow> bool" where
  "path_lexists d t = (map_of d t \<noteq> None)"

definition path_exists :: "env \<Rightarrow> dirmap \<Rightarrow> string \<Rightarrow> bool" where
  "path_exists e d t =
     (case map_of d t of
        None \<Rightarrow> False
      | Some (Sym c) \<Rightarrow> stat_rel e c \<noteq> None
      | Some _ \<Rightarrow> True)"

definition path_islink :: "dirmap \<Rightarrow> string \<Rightarrow> bool" where
  "path_islink d t = (case map_of d t of Some (Sym c) \<Rightarrow> True | _ \<Rightarrow> False)"

definition path_isfile :: "env \<Rightarrow> dirmap \<Rightarrow> string \<Rightarrow> bool" where
  "path_isfile e d t =
     (case map_of d t of
        Some (Reg r) \<Rightarrow> True
      | Some (Sym c) \<Rightarrow> isfile_rel e c
      | _ \<Rightarrow> False)"

definition os_stat :: "env \<Rightarrow> dirmap \<Rightarrow> string \<Rightarrow> linkref option" where
  "os_stat e d t =
     (case map_of d t of
        None \<Rightarrow> None
      | Some (Reg r) \<Rightarrow> Some r
      | Some (Sym c) \<Rightarrow> stat_rel e c
      | Some (Other r) \<Rightarrow> Some r)"

definition st_nlink :: "env \<Rightarrow> dirmap \<Rightarrow> linkref \<Rightarrow> nat" where
  "st_nlink e d r = ext_links e r + length (filter (\<lambda>ne. snd ne = Reg r) d)"

text \<open>\<open>os.remove\<close>, \<open>os.link\<close> and \<open>os.symlink\<close> on a name of the output directory;
  \<open>None\<close> is an \<open>OSError\<close>. The source of a hard link is a regular file, whose inode is
  the one \<open>stat\<close> reports.\<close>

definition os_remove :: "env \<Rightarrow> dirmap \<Rightarrow> string \<Rightarrow> dirmap option" where
  "os_remove e d t =
     (if map_of d t = None \<or> \<not> rm_ok e t then None else Some (AList.delete t d))"

definition os_link :: "env \<Rightarrow> dirmap \<Rightarrow> string \<Rightarrow> string \<Rightarrow> dirmap option" where
  "os_link e d src t =
     (if map_of d t \<noteq> None \<or> \<not> ln_ok e t then None
      else (case stat_rel e src of
              None \<Rightarrow> None
            | Some r \<Rightarrow> Some (d @ [(t, Reg r)])))"

definition os_symlink :: "env \<Rightarrow> dirmap \<Rightarrow> string \<Rightarrow> string \<Rightarrow> dirmap option" where
  "os_symlink e d src t =
     (if map_of d t \<noteq> None \<or> \<not> ln_ok e t then None
      else Some (d @ [(t, Sym src)]))"

section \<open>Link identity resolver (refType, getLinkRef)\<close>

datatype reftype = IS_FILE | IS_HLINK | IS_SLINK | IS_OTHER | IS_ERROR

text \<open>\<open>refType\<close>: the \<open>stat\<close> of line 172 follows a successful \<open>path.isfile\<close> of a
  name that is not a symbolic link, so it does not raise and \<open>IS_ERROR\<close> is never
  returned.\<close>

definition refType :: "env \<Rightarrow> dirmap \<Rightarrow> string \<Rightarrow> reftype" where
  "refType e d servRefPath =
     (if path_islink d servRefPath then IS_SLINK
      else if path_isfile e d servRefPath then
        (case map_of d servRefPath of
           Some (Reg r) \<Rightarrow> (if st_nlink e d r > 1 then IS_HLINK else IS_FILE)
         | _ \<Rightarrow> IS_ERROR)
      else IS_OTHER)"

definition getLinkRef :: "env \<Rightarrow> dirmap \<Rightarrow> string \<Rightarrow> linkref option" where
  "getLinkRef e d servRefPath = os_stat e d servRefPath"

section \<open>The LinkMaker object\<close>

datatype msg =
    TooManyFields string
  | TooFewFields string
  | Overridden string string
  | LinkFailed bool string string
  | NoPicon string string
  | LinkExists string string string
  | LinksMade nat
  | Removing nat
  | CantRemove string
  | Renamed string string string
  | CantProcessImageDir
  | CantProcessLinkDir
  | CantWriteIndex

text \<open>
  The state of one run on one output directory: the directory itself, the attributes
  of the \<open>LinkMaker\<close> object, the local variables \<open>piconLinks\<close>, \<open>linksMade\<close> and
  \<open>servRefPartsFold\<close> of \<open>makeLinks\<close>, and everything printed so far (\<open>log\<close>, in the
  order of printing).
\<close>

record state =
  dir :: dirmap
  piconFiles :: "string \<Rightarrow> (string \<times> linkref) option"
  origPiconLinks :: "(string \<times> linkref) list"
  overrides :: "string set"
  linkedPiconNames :: "string set"
  piconLinks :: "string \<Rightarrow> string option"
  linksMade :: nat
  servRefPartsFold :: foldvar
  log :: "msg list"

definition say :: "msg \<Rightarrow> state \<Rightarrow> state" where
  "say m s = s\<lparr>log := log s @ [m]\<rparr>"

definition CHAN_PICON_DIR :: string where
  "CHAN_PICON_DIR = ''channel_picons''"

text \<open>\<open>path.join(CHAN_PICON_DIR, piconName)\<close>, for a name that \<open>listdir\<close> returned.\<close>

definition chan_path :: "string \<Rightarrow> string" where
  "chan_path piconName = CHAN_PICON_DIR @ ''/'' @ piconName"

subsection \<open>Icon inventory (\_makePiconFileList)\<close>

definition PICON_SRCS :: "string list" where
  "PICON_SRCS = [''_ab'', ''_fv'', ''_gm'', ''_lw'', ''_mp'', ''_nine'', ''_rc'', ''_sbs'',
                 ''_wp'', ''_ys'']"

text \<open>The body of the loop of lines 124 to 140 for one name: the new inventory
  (\<open>None\<close>: an exception was raised) and what was printed. \<open>getLinkRef\<close> of a path
  under \<open>channel_picons\<close> is \<open>stat_rel\<close> of it.\<close>

definition picon_step ::
  "env \<Rightarrow> (string \<Rightarrow> (string \<times> linkref) option) \<Rightarrow> string \<Rightarrow>
   (string \<Rightarrow> (string \<times> linkref) option) option \<times> msg list" where
  "picon_step e pf piconName =
     (let (basename, ext) = splitext piconName in
      if ext \<noteq> ''.png'' then (Some pf, [])
      else
        let piconPath = chan_path piconName in
        if \<not> isfile_rel e piconPath then (Some pf, [])
        else
          let origIndex = rfind (CHR ''_'') basename;
              (piconBasename, printed) =
                (if origIndex > 0 \<and> drop (nat origIndex) basename \<in> set PICON_SRCS then
                   (let b = take (nat origIndex) basename in
                    (Some b, (case pf b of
                                Some old \<Rightarrow> [Renamed b (fst old) piconName]
                              | None \<Rightarrow> [])))
                 else if pf basename = None then (Some basename, [])
                 else (None, []))
          in case piconBasename of
               None \<Rightarrow> (Some pf, printed)
             | Some b \<Rightarrow>
                 if b = [] then (Some pf, printed)
                 else (case stat_rel e piconPath of
                         None \<Rightarrow> (None, printed)
                       | Some r \<Rightarrow> (Some (pf(b \<mapsto> (piconName, r))), printed)))"

fun makePiconFileList_loop ::
  "env \<Rightarrow> string list \<Rightarrow> (string \<Rightarrow> (string \<times> linkref) option) \<Rightarrow> msg list \<Rightarrow>
   (string \<Rightarrow> (string \<times> linkref) option) option \<times> msg list" where
  "makePiconFileList_loop e [] pf printed = (Some pf, printed)"
| "makePiconFileList_loop e (n # ns) pf printed =
     (case picon_step e pf n of
        (None, ms) \<Rightarrow> (None, printed @ ms)
      | (Some pf', ms) \<Rightarrow> makePiconFileList_loop e ns pf' (printed @ ms))"

text \<open>\<open>_makePiconFileList\<close>: \<open>None\<close> is the \<open>exit(1)\<close> of line 143.\<close>

definition makePiconFileList :: "env \<Rightarrow> state \<Rightarrow> state option \<times> msg list" where
  "makePiconFileList e s =
     (case chan_listing e of
        None \<Rightarrow> (None, [CantProcessImageDir])
      | Some names \<Rightarrow>
          (case makePiconFileList_loop e names Map.empty [] of
             (None, ms) \<Rightarrow> (None, ms @ [CantProcessImageDir])
           | (Some pf, ms) \<Rightarrow> (Some (s\<lparr>piconFiles := pf, log := log s @ ms\<rparr>), ms)))"

subsection \<open>Removing links (\_clean, clean)\<close>

fun clean_loop :: "env \<Rightarrow> string list \<Rightarrow> state \<Rightarrow> state" where
  "clean_loop e [] s = s"
| "clean_loop e (servRefName # rest) s =
     (case os_remove e (dir s) servRefName of
        None \<Rightarrow> clean_loop e rest (say (CantRemove servRefName) s)
      | Some d \<Rightarrow> clean_loop e rest (s\<lparr>dir := d\<rparr>))"

text \<open>\<open>_clean(servRefNames)\<close>.\<close>

definition clean_names :: "env \<Rightarrow> string list \<Rightarrow> state \<Rightarrow> state" where
  "clean_names e servRefNames s =
     clean_loop e servRefNames (say (Removing (length servRefNames)) s)"

text \<open>\<open>clean()\<close>: the keys of \<open>origPiconLinks\<close>, in the order of the dictionary.\<close>

definition clean :: "env \<Rightarrow> state \<Rightarrow> state" where
  "clean e s = (clean_names e (map fst (origPiconLinks s)) s)\<lparr>origPiconLinks := []\<rparr>"

subsection \<open>Existing-link classifier (\_cleanWrongLinks)\<close>

definition has_png_ext :: "string \<Rightarrow> bool" where
  "has_png_ext name = (snd (splitext name) = ''.png'')"

text \<open>The loop of lines 149 to 159: \<open>origPiconLinks\<close> and \<open>wrongLinks\<close>, or \<open>None\<close>
  when \<open>getLinkRef\<close> raises (a dangling symbolic link).\<close>

fun scan_links ::
  "env \<Rightarrow> bool \<Rightarrow> dirmap \<Rightarrow> string list \<Rightarrow> (string \<times> linkref) list \<times> string list \<Rightarrow>
   ((string \<times> linkref) list \<times> string list) option" where
  "scan_links e hard d [] acc = Some acc"
| "scan_links e hard d (servRefName # rest) acc =
     (let fileType = refType e d servRefName in
      if fileType = IS_SLINK \<or> fileType = IS_HLINK then
        (case getLinkRef e d servRefName of
           None \<Rightarrow> None
         | Some linkRef \<Rightarrow>
             if hard = (fileType = IS_HLINK)
             then scan_links e hard d rest (AList.update servRefName linkRef (fst acc), snd acc)
             else scan_links e hard d rest (fst acc, snd acc @ [servRefName]))
      else scan_links e hard d rest acc)"

text \<open>\<open>_cleanWrongLinks\<close>: \<open>None\<close> is the \<open>exit(1)\<close> of line 165.\<close>

definition cleanWrongLinks :: "env \<Rightarrow> options \<Rightarrow> state \<Rightarrow> state option" where
  "cleanWrongLinks e opts s =
     (if \<not> listdir_ok e then None
      else
        (case scan_links e (useHardLinks opts) (dir s)
                (filter has_png_ext (map fst (dir s))) (origPiconLinks s, []) of
           None \<Rightarrow> None
         | Some (orig, wrongLinks) \<Rightarrow>
             (let s1 = clean_names e wrongLinks (s\<lparr>origPiconLinks := orig\<rparr>)
              in Some (if cleanAll opts then clean e s1 else s1))))"

subsection \<open>Reconciliation driver (makeLinks)\<close>

definition isOverride :: "env \<Rightarrow> state \<Rightarrow> string \<Rightarrow> bool \<times> state" where
  "isOverride e s servRefPath =
     (let s1 = (if servRefPath \<notin> overrides s \<and> refType e (dir s) servRefPath = IS_FILE
                then s\<lparr>overrides := insert servRefPath (overrides s)\<rparr>
                else s)
      in (servRefPath \<in> overrides s1, s1))"

text \<open>Lines 270 to 281: the \<open>try\<close> block; the flag returned is \<open>linked\<close>.\<close>

definition try_link ::
  "env \<Rightarrow> options \<Rightarrow> bool \<Rightarrow> string \<Rightarrow> string \<Rightarrow> state \<Rightarrow> bool \<times> state" where
  "try_link e opts lexists piconName servRefName s =
     (case (if lexists then os_remove e (dir s) servRefName else Some (dir s)) of
        None \<Rightarrow> (False, say (LinkFailed (useHardLinks opts) piconName servRefName) s)
      | Some d1 \<Rightarrow>
          (let s1 = s\<lparr>dir := d1, linksMade := linksMade s + 1\<rparr> in
           case (if useHardLinks opts
                 then os_link e d1 (chan_path piconName) servRefName
                 else os_symlink e d1 (chan_path piconName) servRefName) of
             None \<Rightarrow> (False, say (LinkFailed (useHardLinks opts) piconName servRefName) s1)
           | Some d2 \<Rightarrow> (True, s1\<lparr>dir := d2\<rparr>)))"

text \<open>Lines 259 to 281, for an icon of the inventory: the flag \<open>linked\<close> and the
  new state.\<close>

definition link_target ::
  "env \<Rightarrow> options \<Rightarrow> bool \<Rightarrow> string \<times> linkref \<Rightarrow> string \<Rightarrow> state \<Rightarrow> bool \<times> state" where
  "link_target e opts lexists entry servRefName s =
     (let piconName = fst entry;
          piconRef = snd entry;
          (linked, s1) =
            (case map_of (origPiconLinks s) servRefName of
               None \<Rightarrow> (False, s)
             | Some r \<Rightarrow>
                 (r = piconRef,
                  s\<lparr>origPiconLinks := AList.delete servRefName (origPiconLinks s)\<rparr>))
      in if \<not> linked then try_link e opts lexists piconName servRefName s1
         else (True, s1))"

text \<open>The body of the loop of line 238 for one element \<open>srp\<close> of \<open>servRefs\<close>.\<close>

definition reconcile ::
  "env \<Rightarrow> options \<Rightarrow> string \<Rightarrow> string \<Rightarrow> state \<Rightarrow> string list \<Rightarrow> state" where
  "reconcile e opts servRef picon s srp =
     (let servRefName = target_name srp in
      if piconLinks s servRefName = Some picon then s
      else
        (case piconLinks s servRefName of
           Some old \<Rightarrow> say (LinkExists servRef old picon) s
         | None \<Rightarrow>
             (let exists = path_exists e (dir s) servRefName;
                  alreadyOverridden = (servRefName \<in> overrides s);
                  (ov, s1) = (if exists then isOverride e s servRefName else (False, s))
              in if exists \<and> ov then
                   (if \<not> alreadyOverridden then say (Overridden picon servRefName) s1 else s1)
                 else
                   (let lexists = (exists \<or> path_lexists (dir s1) servRefName);
                        (linked, piconName, s2) =
                          (case (if \<not> exists \<or> lexists then piconFiles s1 picon else None) of
                             None \<Rightarrow> (False, [], s1)
                           | Some entry \<Rightarrow>
                               (let (l, s') = link_target e opts lexists entry servRefName s1
                                in (l, fst entry, s')))
                    in if linked then
                         s2\<lparr>linkedPiconNames := insert piconName (linkedPiconNames s2),
                            piconLinks := (piconLinks s2)(servRefName \<mapsto> picon)\<rparr>
                       else if picon \<notin> {''tba'', ''tobeadvised''} then say (NoPicon picon servRef) s2
                       else s2))))"

text \<open>The body of the loop of line 198 for one line of the mapping database: an
  exception that nothing catches, or the new state.\<close>

definition process_line :: "env \<Rightarrow> options \<Rightarrow> state \<Rightarrow> string \<Rightarrow> pyerror + state" where
  "process_line e opts s line0 =
     (let line = rstrip (strip_comment line0) in
      if line = [] then Inr s
      else
        (let F = py_split line in
         if length F > 3 then Inr (say (TooManyFields line) s)
         else if length F < 3 then Inr (say (TooFewFields line) s)
         else
           (let servRef = F ! 0; serviceName = F ! 1; picon = F ! 2 in
            case expand opts (servRefPartsFold s) servRef serviceName of
              Inl err \<Rightarrow> Inl err
            | Inr (servRefs, fv) \<Rightarrow>
                Inr (foldl (reconcile e opts servRef picon) (s\<lparr>servRefPartsFold := fv\<rparr>)
                       servRefs))))"

datatype outcome = Completed | Exit1 | Uncaught pyerror

text \<open>\<open>makeLinks\<close>: the locals start empty; an uncaught exception ends the process with
  the state reached before the offending record.\<close>

fun makeLinks_loop :: "env \<Rightarrow> options \<Rightarrow> state \<Rightarrow> string list \<Rightarrow> outcome \<times> state" where
  "makeLinks_loop e opts s [] = (Completed, say (LinksMade (linksMade s)) s)"
| "makeLinks_loop e opts s (line # rest) =
     (case process_line e opts s line of
        Inl err \<Rightarrow> (Uncaught err, s)
      | Inr s' \<Rightarrow> makeLinks_loop e opts s' rest)"

definition makeLinks :: "env \<Rightarrow> options \<Rightarrow> state \<Rightarrow> string list \<Rightarrow> outcome \<times> state" where
  "makeLinks e opts s servrefFile =
     makeLinks_loop e opts
       (s\<lparr>piconLinks := Map.empty, linksMade := 0, servRefPartsFold := None\<rparr>) servrefFile"

section \<open>One run on one output directory (lines 425 to 430)\<close>

definition new_state :: "dirmap \<Rightarrow> state" where
  "new_state d =
     \<lparr>dir = d, piconFiles = Map.empty, origPiconLinks = [], overrides = {},
      linkedPiconNames = {}, piconLinks = Map.empty, linksMade = 0,
      servRefPartsFold = None, log = []\<rparr>"

text \<open>The constructor, after the mapping database has been opened.\<close>

definition init :: "env \<Rightarrow> options \<Rightarrow> dirmap \<Rightarrow> outcome \<times> state" where
  "init e opts d =
     (case makePiconFileList e (new_state d) of
        (None, ms) \<Rightarrow> (Exit1, (new_state d)\<lparr>log := ms\<rparr>)
      | (Some s1, ms) \<Rightarrow>
          (case cleanWrongLinks e opts s1 of
             None \<Rightarrow> (Exit1, say CantProcessLinkDir s1)
           | Some s2 \<Rightarrow> (Completed, s2)))"

text \<open>
  \<open>LinkMaker(...)\<close>, \<open>makeLinks()\<close>, \<open>checkUnused()\<close>, \<open>makeHtmlIndex(...)\<close>, \<open>clean()\<close>.
  \<open>checkUnused\<close> and the contents of \<open>index.html\<close> are reports and are left out; the
  \<open>exit(1)\<close> of \<open>makeHtmlIndex\<close> is kept, since it comes before \<open>clean()\<close>.
\<close>

definition run :: "env \<Rightarrow> options \<Rightarrow> string list \<Rightarrow> dirmap \<Rightarrow> outcome \<times> state" where
  "run e opts servrefFile d =
     (case init e opts d of
        (Completed, s1) \<Rightarrow>
          (case makeLinks e opts s1 servrefFile of
             (Completed, s2) \<Rightarrow>
               if index_ok e then (Completed, clean e s2)
               else (Exit1, say CantWriteIndex s2)
           | (out, s2) \<Rightarrow> (out, s2))
      | (out, s1) \<Rightarrow> (out, s1))"

section \<open>Auxiliary definitions for the statements\<close>

definition no_options :: options where
  "no_options = \<lparr>full = False, short = False, fold = False, addfold = False,
     useServiceNameLinks = False, useHardLinks = False, cleanAll = False\<rparr>"

text \<open>The link names of one record: \<open>servRefs\<close> mapped through line 239.\<close>

definition targets_of :: "options \<Rightarrow> foldvar \<Rightarrow> string \<Rightarrow> string \<Rightarrow> pyerror + string list" where
  "targets_of opts fv servRef serviceName =
     (case expand opts fv servRef serviceName of
        Inl err \<Rightarrow> Inl err
      | Inr (servRefs, fv') \<Rightarrow> Inr (map target_name servRefs))"

text \<open>A small environment: three icon files, every operation permitted.\<close>

definition example_env :: env where
  "example_env =
     \<lparr>chan_listing = Some [''abc_wp.png'', ''abc.png'', ''sbs.png''],
      isfile_rel = (\<lambda>p. True),
      stat_rel = (\<lambda>p. if p = ''channel_picons/abc_wp.png'' then Some (1, 10)
                       else if p = ''channel_picons/abc.png'' then Some (1, 11)
                       else if p = ''channel_picons/sbs.png'' then Some (1, 12)
                       else None),
      ext_links = (\<lambda>r. if r = (1, 10) \<or> r = (1, 11) \<or> r = (1, 12) then 1 else 0),
      listdir_ok = True,
      rm_ok = (\<lambda>n. True),
      ln_ok = (\<lambda>n. True),
      index_ok = True\<rparr>"

text \<open>The inventory that \<open>_makePiconFileList\<close> builds in that environment.\<close>

definition example_inventory :: "string \<Rightarrow> (string \<times> linkref) option" where
  "example_inventory =
     [''abc'' \<mapsto> (''abc_wp.png'', (1, 10)), ''sbs'' \<mapsto> (''sbs.png'', (1, 12))]"

definition example_state :: "dirmap \<Rightarrow> state" where
  "example_state d = (new_state d)\<lparr>piconFiles := example_inventory\<rparr>"

definition bad_line :: string where
  "bad_line = ''x:0:1:4A:6:85:0:0:0:0 ABC abc''"

definition good_line :: string where
  "good_line = ''1:0:1:4A:6:85:0:0:0:0 ABC abc''"

text \<open>The \<open>else\<close> branch of lines 286 to 288.\<close>

definition no_picon :: "string \<Rightarrow> string \<Rightarrow> state \<Rightarrow> state" where
  "no_picon servRef picon s =
     (if picon \<notin> {''tba'', ''tobeadvised''} then say (NoPicon picon servRef) s else s)"

text \<open>What \<open>link\<close> or \<open>symlink\<close> of lines 275 to 278 places under the new name.\<close>

definition new_entry :: "env \<Rightarrow> options \<Rightarrow> string \<Rightarrow> dirent option" where
  "new_entry e opts piconName =
     (if useHardLinks opts then map_option Reg (stat_rel e (chan_path piconName))
      else Some (Sym (chan_path piconName)))"

text \<open>The bookkeeping of lines 284 and 285.\<close>

definition claim :: "string \<Rightarrow> string \<Rightarrow> string \<Rightarrow> state \<Rightarrow> state" where
  "claim piconName servRefName picon s =
     s\<lparr>linkedPiconNames := insert piconName (linkedPiconNames s),
       piconLinks := (piconLinks s)(servRefName \<mapsto> picon)\<rparr>"

text \<open>What the loop over the records prints by itself (lines 204, 207 and 292).\<close>

definition is_loop_msg :: "msg \<Rightarrow> bool" where
  "is_loop_msg m =
     (case m of TooManyFields l \<Rightarrow> True | TooFewFields l \<Rightarrow> True | LinksMade k \<Rightarrow> True
      | _ \<Rightarrow> False)"

text \<open>
  The states that a call of \<open>makeLinks\<close> can pass through after the state \<open>s\<close>: each
  step handles one element of some \<open>servRefs\<close>, prints one of those lines, or assigns
  \<open>servRefPartsFold\<close>.
\<close>

inductive steps :: "env \<Rightarrow> options \<Rightarrow> state \<Rightarrow> state \<Rightarrow> bool" for e opts s where
  here: "steps e opts s s"
| target: "steps e opts s s1 \<Longrightarrow> steps e opts s (reconcile e opts servRef picon s1 srp)"
| printed: "steps e opts s s1 \<Longrightarrow> is_loop_msg m \<Longrightarrow> steps e opts s (say m s1)"
| folded: "steps e opts s s1 \<Longrightarrow> steps e opts s (s1\<lparr>servRefPartsFold := fv\<rparr>)"

definition tba_line :: string where
  "tba_line = ''1:0:1:4A:6:85:0:0:0:0 ABC tba''"

definition abc_parts :: "string list" where
  "abc_parts = [''1'', ''0'', ''1'', ''4A'', ''6'', ''85'', ''0'', ''0'', ''0'', ''0'']"

text \<open>A state in which the record of \<open>good_line\<close> has obtained its target.\<close>

definition claimed_state :: state where
  "claimed_state =
     (example_state [(''1_0_1_4A_6_85_0_0_0_0.png'', Sym ''channel_picons/abc_wp.png'')])
       \<lparr>piconLinks := [''1_0_1_4A_6_85_0_0_0_0.png'' \<mapsto> ''abc'']\<rparr>"



text \<open>The lines that report an override by the target \<open>t\<close>.\<close>

definition is_override_msg :: "string \<Rightarrow> msg \<Rightarrow> bool" where
  "is_override_msg t m = (case m of Overridden p n \<Rightarrow> n = t | _ \<Rightarrow> False)"

text \<open>
  A file under \<open>channel_picons\<close> is a directory entry outside the output directory: the
  inode that \<open>stat\<close> finds there has at least that one link.
\<close>

definition wf_env :: "env \<Rightarrow> bool" where
  "wf_env e = (\<forall>n r. stat_rel e (chan_path n) = Some r \<longrightarrow> 1 \<le> ext_links e r)"

text \<open>
  The plain file \<open>t\<close>, with inode \<open>J\<close>, is where it was and has not been touched: \<open>t\<close> is
  the only entry for \<open>J\<close>, it is neither a baseline link nor an obtained target, no
  removal of it has failed, and its override has been printed once if it is in
  \<open>overrides\<close> and never otherwise.
\<close>

definition kept :: "env \<Rightarrow> string \<Rightarrow> linkref \<Rightarrow> state \<Rightarrow> bool" where
  "kept e t J s =
     (map_of (dir s) t = Some (Reg J) \<and>
      filter (\<lambda>ne. snd ne = Reg J) (dir s) = [(t, Reg J)] \<and>
      ext_links e J = 0 \<and>
      map_of (origPiconLinks s) t = None \<and>
      piconLinks s t = None \<and>
      length (filter (is_override_msg t) (log s)) = (if t \<in> overrides s then 1 else 0) \<and>
      CantRemove t \<notin> set (log s))"

definition is_renamed :: "msg \<Rightarrow> bool" where
  "is_renamed m = (case m of Renamed k old new \<Rightarrow> True | _ \<Rightarrow> False)"

text \<open>An output directory with a plain file, a stale link and nothing else.\<close>

definition plain_dir :: dirmap where
  "plain_dir = [(''1_0_1_4A_6_85_0_0_0_0.png'', Reg (2, 7)),
                (''old.png'', Sym ''channel_picons/sbs.png'')]"

text \<open>The kind of link that the run makes and keeps.\<close>

definition configured_kind :: "options \<Rightarrow> reftype" where
  "configured_kind opts = (if useHardLinks opts then IS_HLINK else IS_SLINK)"

text \<open>
  What remains to be done for a baseline link \<open>t\<close>: it is still in \<open>origPiconLinks\<close>, or
  a record has obtained it, or it is gone from the directory.
\<close>

definition pending :: "string \<Rightarrow> state \<Rightarrow> bool" where
  "pending t s =
     (map_of (origPiconLinks s) t \<noteq> None \<or> piconLinks s t \<noteq> None \<or> map_of (dir s) t = None)"





text \<open>
  Hard-link mode, and an output directory whose two names are the two links of one inode
  that has no other link (what hard links are left as once the icon file they were made
  from has been replaced). The first record replaces the first name; the second record
  asks for the second name.
\<close>

definition hard_options :: options where
  "hard_options = no_options\<lparr>full := True, useHardLinks := True\<rparr>"

definition pair_dir :: dirmap where
  "pair_dir = [(''1_0_1_AA.png'', Reg (2, 5)), (''1_0_1_BB.png'', Reg (2, 5))]"

definition aa_line :: string where
  "aa_line = ''1:0:1:AA ABC abc''"

definition bb_line :: string where
  "bb_line = ''1:0:1:BB SBS sbs''"

text \<open>The state in which \<open>makeLinks\<close> starts on that directory.\<close>

definition pair_start :: state where
  "pair_start =
     (snd (init example_env hard_options pair_dir))
       \<lparr>piconLinks := Map.empty, linksMade := 0, servRefPartsFold := None\<rparr>"

section \<open>Verified properties\<close>

subsection \<open>Reference expansion\<close>

lemmas parse_simps = Let_def bindE_def py_index_def py_int_def rstrip_def py_isspace_def
  digit_val_def

text \<open>
  C6. The record \<open>1:0:2:4A:6:1010:0:0:0:0 "ABC News" abcnews\<close> under \<open>addfold\<close> alone
  does not expand to three targets. Its service type \<open>2\<close> is one of the types that are
  not folded, and \<open>0x4A & 0xF\<close> is \<open>0xA\<close>, not \<open>0xF\<close>, so no alias is made either.
\<close>

theorem C6_counterexample:
  "targets_of (no_options\<lparr>addfold := True\<rparr>) None ''1:0:2:4A:6:1010:0:0:0:0'' ''ABC News''
     \<noteq> Inr [''1_0_2_4A_6_1010_0_0_0_0.png'', ''1_0_1_4A_6_1010_0_0_0_0.png'',
             ''1_0_A_4A_6_1010_0_0_0_0.png'']"
  by (simp add: targets_of_def expand_def no_options_def addfold_block_def target_name_def
      parse_simps)

text \<open>
  C6, as the code has it: the record \<open>1:0:2:4A:6:1010:0:0:0:0 "ABC News" abcnews\<close>
  under \<open>addfold\<close> expands to exactly one target, the full one with service type \<open>2\<close>,
  whatever \<open>servRefPartsFold\<close> holds from earlier records.
\<close>

theorem C6_abcnews_one_target:
  "targets_of (no_options\<lparr>addfold := True\<rparr>) fv ''1:0:2:4A:6:1010:0:0:0:0'' ''ABC News''
     = Inr [''1_0_2_4A_6_1010_0_0_0_0.png'']"
  by (simp add: targets_of_def expand_def no_options_def addfold_block_def target_name_def
      parse_simps)

text \<open>With \<open>4F\<close> in field 3 the alias of the comment on line 225 does appear.\<close>

lemma addfold_alias_4F:
  "targets_of (no_options\<lparr>addfold := True\<rparr>) fv ''1:0:2:4F:6:1010:0:0:0:0'' ''ABC News''
     = Inr [''1_0_2_4F_6_1010_0_0_0_0.png'', ''1_0_A_4F_6_1010_0_0_0_0.png'']"
  by (simp add: targets_of_def expand_def no_options_def addfold_block_def target_name_def
      parse_simps)

text \<open>
  C5. Under \<open>fold\<close> alone, a record of service type \<open>1\<close> still reaches the append of
  line 236: as the first record it raises \<open>UnboundLocalError\<close>, and after a record that
  was folded (here one with \<open>90\<close> in field 5) it contributes that earlier record's
  folded target, so the fold rule does contribute a target for a service type in
  \<open>{0x1, 0x2, 0xA}\<close>.
\<close>

theorem C5_fold_appends_outside_guard:
  "targets_of (no_options\<lparr>fold := True\<rparr>) None ''1:0:1:4A:6:85:0:0:0:0'' ''ABC HD''
     = Inl UnboundLocalError
   \<and> targets_of (no_options\<lparr>fold := True\<rparr>)
        (Some [''1'', ''0'', ''1'', ''4A'', ''6'', ''90'', ''0'', ''0'', ''0'', ''0''])
        ''1:0:1:4A:6:85:0:0:0:0'' ''ABC HD''
     = Inr [''1_0_1_4A_6_90_0_0_0_0.png'']"
  by (simp add: targets_of_def expand_def no_options_def fold_block_def target_name_def
      parse_simps)









subsection \<open>Icon inventory\<close>

text \<open>
  C9. Scanning \<open>abc_wp.png\<close> and then \<open>abc.png\<close> keeps \<open>abc_wp.png\<close> as the owner of
  the key \<open>abc\<close>, and prints nothing: the ambiguity is not logged.
\<close>

theorem C9_counterexample:
  "snd (makePiconFileList_loop example_env [''abc_wp.png'', ''abc.png''] Map.empty []) = []
   \<and> map_option (\<lambda>pf. pf ''abc'')
       (fst (makePiconFileList_loop example_env [''abc_wp.png'', ''abc.png''] Map.empty []))
     = Some (Some (''abc_wp.png'', (1, 10)))"
  by code_simp

text \<open>
  C9, as the code has it. When a scanned \<open>.png\<close> file's base name carries no
  recognised source suffix and that base name is already a key of the inventory, the
  step for that file leaves the inventory as it is (the earlier entry stays the owner
  of the key) and prints nothing.
\<close>

theorem C9_unsuffixed_duplicate_kept_silently:
  assumes "splitext piconName = (basename, ''.png'')"
    and "\<not> (rfind (CHR ''_'') basename > 0
            \<and> drop (nat (rfind (CHR ''_'') basename)) basename \<in> set PICON_SRCS)"
    and "pf basename = Some entry"
  shows "picon_step e pf piconName = (Some pf, [])"
  using assms by (auto simp: picon_step_def Let_def)

theorem C9_unsuffixed_duplicate_kept_silently_witness:
  "splitext ''abc.png'' = (''abc'', ''.png'')
   \<and> \<not> (rfind (CHR ''_'') ''abc'' > 0
          \<and> drop (nat (rfind (CHR ''_'') ''abc'')) ''abc'' \<in> set PICON_SRCS)
   \<and> example_inventory ''abc'' = Some (''abc_wp.png'', (1, 10))
   \<and> picon_step example_env example_inventory ''abc.png'' = (Some example_inventory, [])"
proof -
  have a: "splitext ''abc.png'' = (''abc'', ''.png'')"
    by (simp add: splitext_def)
  have b: "\<not> (rfind (CHR ''_'') ''abc'' > 0
          \<and> drop (nat (rfind (CHR ''_'') ''abc'')) ''abc'' \<in> set PICON_SRCS)"
    by simp
  have c: "example_inventory ''abc'' = Some (''abc_wp.png'', (1, 10))"
    by (simp add: example_inventory_def)
  show ?thesis
    using a b c
      C9_unsuffixed_duplicate_kept_silently
        [of "''abc.png''" "''abc''" example_inventory "(''abc_wp.png'', (1, 10))" example_env]
    by blast
qed

subsection \<open>The reconciliation step, case by case\<close>

lemma say_simps [simp]:
  "dir (say m s) = dir s" "piconFiles (say m s) = piconFiles s"
  "origPiconLinks (say m s) = origPiconLinks s" "overrides (say m s) = overrides s"
  "linkedPiconNames (say m s) = linkedPiconNames s" "piconLinks (say m s) = piconLinks s"
  "linksMade (say m s) = linksMade s" "servRefPartsFold (say m s) = servRefPartsFold s"
  "log (say m s) = log s @ [m]"
  by (simp_all add: say_def)

lemma claim_simps [simp]:
  "dir (claim n t p s) = dir s" "piconFiles (claim n t p s) = piconFiles s"
  "origPiconLinks (claim n t p s) = origPiconLinks s" "overrides (claim n t p s) = overrides s"
  "linkedPiconNames (claim n t p s) = insert n (linkedPiconNames s)"
  "piconLinks (claim n t p s) = (piconLinks s)(t \<mapsto> p)"
  "linksMade (claim n t p s) = linksMade s"
  "servRefPartsFold (claim n t p s) = servRefPartsFold s"
  "log (claim n t p s) = log s"
  by (simp_all add: claim_def)

lemma no_picon_simps [simp]:
  "dir (no_picon r p s) = dir s" "piconFiles (no_picon r p s) = piconFiles s"
  "origPiconLinks (no_picon r p s) = origPiconLinks s" "overrides (no_picon r p s) = overrides s"
  "linkedPiconNames (no_picon r p s) = linkedPiconNames s"
  "piconLinks (no_picon r p s) = piconLinks s"
  "linksMade (no_picon r p s) = linksMade s"
  "servRefPartsFold (no_picon r p s) = servRefPartsFold s"
  by (simp_all add: no_picon_def)


lemma delete_absent: "map_of al k = None \<Longrightarrow> AList.delete k al = al"
  by (simp add: map_of_eq_None_iff)

lemma map_of_delete_same [simp]: "map_of (AList.delete k al) k = None"
  by (simp add: delete_conv')

lemma exists_lexists: "path_exists e d t \<Longrightarrow> map_of d t \<noteq> None"
  by (auto simp: path_exists_def split: option.splits)

lemma try_link_flat:
  "b = (map_of (dir s) t \<noteq> None) \<Longrightarrow>
   try_link e opts b n t s =
     (if map_of (dir s) t \<noteq> None \<and> \<not> rm_ok e t
      then (False, say (LinkFailed (useHardLinks opts) n t) s)
      else
        (let s1 = s\<lparr>dir := AList.delete t (dir s), linksMade := linksMade s + 1\<rparr> in
         if \<not> ln_ok e t then (False, say (LinkFailed (useHardLinks opts) n t) s1)
         else (case new_entry e opts n of
                 None \<Rightarrow> (False, say (LinkFailed (useHardLinks opts) n t) s1)
               | Some ent \<Rightarrow> (True, s1\<lparr>dir := AList.delete t (dir s) @ [(t, ent)]\<rparr>))))"
  by (cases "map_of (dir s) t")
     (auto simp: try_link_def os_remove_def os_link_def os_symlink_def new_entry_def Let_def
        delete_absent split: option.splits)

lemma link_target_flat:
  "link_target e opts b entry t s =
     (if map_of (origPiconLinks s) t = Some (snd entry)
      then (True, s\<lparr>origPiconLinks := AList.delete t (origPiconLinks s)\<rparr>)
      else try_link e opts b (fst entry) t
             (s\<lparr>origPiconLinks := AList.delete t (origPiconLinks s)\<rparr>))"
  by (cases "map_of (origPiconLinks s) t")
     (auto simp: link_target_def Let_def delete_absent)

lemma reconcile_flat:
  "reconcile e opts servRef picon s srp =
     (let t = target_name srp in
      case piconLinks s t of
        Some old \<Rightarrow> (if old = picon then s else say (LinkExists servRef old picon) s)
      | None \<Rightarrow>
          if path_exists e (dir s) t \<and> (t \<in> overrides s \<or> refType e (dir s) t = IS_FILE)
          then (if t \<in> overrides s then s
                else say (Overridden picon t) (s\<lparr>overrides := insert t (overrides s)\<rparr>))
          else
            (case piconFiles s picon of
               None \<Rightarrow> no_picon servRef picon s
             | Some entry \<Rightarrow>
                 (if fst (link_target e opts (map_of (dir s) t \<noteq> None) entry t s)
                  then claim (fst entry) t picon
                         (snd (link_target e opts (map_of (dir s) t \<noteq> None) entry t s))
                  else no_picon servRef picon
                         (snd (link_target e opts (map_of (dir s) t \<noteq> None) entry t s)))))"
proof -
  define t where "t = target_name srp"
  show ?thesis
  proof (cases "piconLinks s t")
    case (Some old)
    then show ?thesis
      by (simp add: reconcile_def t_def [symmetric] Let_def)
  next
    case None
    show ?thesis
    proof (cases "path_exists e (dir s) t")
      case True
      then have lex: "map_of (dir s) t \<noteq> None" by (rule exists_lexists)
      then have pl: "path_lexists (dir s) t" by (simp add: path_lexists_def)
      show ?thesis
        using None True lex pl
        by (auto simp: reconcile_def t_def [symmetric] Let_def isOverride_def no_picon_def
            claim_def path_lexists_def split: option.splits prod.splits)
    next
      case False
      show ?thesis
        using None False
        by (auto simp: reconcile_def t_def [symmetric] Let_def no_picon_def
            claim_def path_lexists_def split: option.splits prod.splits)
    qed
  qed
qed

text \<open>The eight ways through the body of the loop of line 238.\<close>

lemma reconcile_cases [consumes 2, case_names same conflict override nopicon matched rmfail
    lnfail linked]:
  assumes eq_s: "s' = reconcile e opts servRef picon s srp" and eq_t: "t = target_name srp"
  obtains
    "piconLinks s t = Some picon" "s' = s"
  | old where "piconLinks s t = Some old" "old \<noteq> picon"
      "s' = say (LinkExists servRef old picon) s"
  | "piconLinks s t = None" "path_exists e (dir s) t"
      "t \<in> overrides s \<or> refType e (dir s) t = IS_FILE"
      "s' = (if t \<in> overrides s then s
             else say (Overridden picon t) (s\<lparr>overrides := insert t (overrides s)\<rparr>))"
  | "piconLinks s t = None"
      "\<not> (path_exists e (dir s) t \<and> (t \<in> overrides s \<or> refType e (dir s) t = IS_FILE))"
      "piconFiles s picon = None" "s' = no_picon servRef picon s"
  | n r where "piconLinks s t = None"
      "\<not> (path_exists e (dir s) t \<and> (t \<in> overrides s \<or> refType e (dir s) t = IS_FILE))"
      "piconFiles s picon = Some (n, r)" "map_of (origPiconLinks s) t = Some r"
      "s' = claim n t picon (s\<lparr>origPiconLinks := AList.delete t (origPiconLinks s)\<rparr>)"
  | n r where "piconLinks s t = None"
      "\<not> (path_exists e (dir s) t \<and> (t \<in> overrides s \<or> refType e (dir s) t = IS_FILE))"
      "piconFiles s picon = Some (n, r)" "map_of (origPiconLinks s) t \<noteq> Some r"
      "map_of (dir s) t \<noteq> None" "\<not> rm_ok e t"
      "s' = no_picon servRef picon (say (LinkFailed (useHardLinks opts) n t)
              (s\<lparr>origPiconLinks := AList.delete t (origPiconLinks s)\<rparr>))"
  | n r where "piconLinks s t = None"
      "\<not> (path_exists e (dir s) t \<and> (t \<in> overrides s \<or> refType e (dir s) t = IS_FILE))"
      "piconFiles s picon = Some (n, r)" "map_of (origPiconLinks s) t \<noteq> Some r"
      "map_of (dir s) t = None \<or> rm_ok e t" "\<not> ln_ok e t \<or> new_entry e opts n = None"
      "s' = no_picon servRef picon (say (LinkFailed (useHardLinks opts) n t)
              (s\<lparr>origPiconLinks := AList.delete t (origPiconLinks s),
                 dir := AList.delete t (dir s), linksMade := linksMade s + 1\<rparr>))"
  | n r ent where "piconLinks s t = None"
      "\<not> (path_exists e (dir s) t \<and> (t \<in> overrides s \<or> refType e (dir s) t = IS_FILE))"
      "piconFiles s picon = Some (n, r)" "map_of (origPiconLinks s) t \<noteq> Some r"
      "map_of (dir s) t = None \<or> rm_ok e t" "ln_ok e t" "new_entry e opts n = Some ent"
      "s' = claim n t picon
              (s\<lparr>origPiconLinks := AList.delete t (origPiconLinks s),
                 dir := AList.delete t (dir s) @ [(t, ent)], linksMade := linksMade s + 1\<rparr>)"
proof -
  have flat: "s' =
     (case piconLinks s t of
        Some old \<Rightarrow> (if old = picon then s else say (LinkExists servRef old picon) s)
      | None \<Rightarrow>
          if path_exists e (dir s) t \<and> (t \<in> overrides s \<or> refType e (dir s) t = IS_FILE)
          then (if t \<in> overrides s then s
                else say (Overridden picon t) (s\<lparr>overrides := insert t (overrides s)\<rparr>))
          else
            (case piconFiles s picon of
               None \<Rightarrow> no_picon servRef picon s
             | Some entry \<Rightarrow>
                 (if fst (link_target e opts (map_of (dir s) t \<noteq> None) entry t s)
                  then claim (fst entry) t picon
                         (snd (link_target e opts (map_of (dir s) t \<noteq> None) entry t s))
                  else no_picon servRef picon
                         (snd (link_target e opts (map_of (dir s) t \<noteq> None) entry t s)))))"
    unfolding eq_s eq_t by (simp add: reconcile_flat Let_def)
  show ?thesis
  proof (cases "piconLinks s t")
    case (Some old)
    with flat that(1,2) show ?thesis
      by (cases "old = picon") simp_all
  next
    case None
    note unclaimed = None
    show ?thesis
    proof (cases "path_exists e (dir s) t \<and> (t \<in> overrides s \<or> refType e (dir s) t = IS_FILE)")
      case True
      with flat unclaimed that(3) show ?thesis
        by simp
    next
      case False
      note not_ov = False
      show ?thesis
      proof (cases "piconFiles s picon")
        case None
        with flat unclaimed not_ov that(4) show ?thesis
          by simp
      next
        case (Some entry)
        obtain n r where entry: "entry = (n, r)" by (cases entry)
        have flat2: "s' =
            (if fst (link_target e opts (map_of (dir s) t \<noteq> None) (n, r) t s)
             then claim n t picon
                    (snd (link_target e opts (map_of (dir s) t \<noteq> None) (n, r) t s))
             else no_picon servRef picon
                    (snd (link_target e opts (map_of (dir s) t \<noteq> None) (n, r) t s)))"
          using flat unclaimed not_ov Some entry by simp
        show ?thesis
        proof (cases "map_of (origPiconLinks s) t = Some r")
          case True
          then have "s' = claim n t picon
              (s\<lparr>origPiconLinks := AList.delete t (origPiconLinks s)\<rparr>)"
            using flat2 by (simp add: link_target_flat)
          with unclaimed not_ov Some entry True show ?thesis
            by (intro that(5) [of n r]) auto
        next
          case False
          note no_match = False
          define s0 where "s0 = s\<lparr>origPiconLinks := AList.delete t (origPiconLinks s)\<rparr>"
          define res where "res = try_link e opts (map_of (dir s) t \<noteq> None) n t s0"
          have flat3: "s' =
            (if fst res then claim n t picon (snd res) else no_picon servRef picon (snd res))"
            using flat2 no_match by (simp add: link_target_flat s0_def res_def)
          have tl: "res =
            (if map_of (dir s) t \<noteq> None \<and> \<not> rm_ok e t
             then (False, say (LinkFailed (useHardLinks opts) n t) s0)
             else
               (let s1 = s0\<lparr>dir := AList.delete t (dir s), linksMade := linksMade s + 1\<rparr> in
                if \<not> ln_ok e t then (False, say (LinkFailed (useHardLinks opts) n t) s1)
                else (case new_entry e opts n of
                        None \<Rightarrow> (False, say (LinkFailed (useHardLinks opts) n t) s1)
                      | Some ent \<Rightarrow> (True, s1\<lparr>dir := AList.delete t (dir s) @ [(t, ent)]\<rparr>))))"
            unfolding res_def
            by (subst try_link_flat) (auto simp: s0_def Let_def split: option.splits)
          show ?thesis
          proof (cases "map_of (dir s) t \<noteq> None \<and> \<not> rm_ok e t")
            case True
            then have "s' = no_picon servRef picon (say (LinkFailed (useHardLinks opts) n t)
                (s\<lparr>origPiconLinks := AList.delete t (origPiconLinks s)\<rparr>))"
              using flat3 by (simp add: tl s0_def)
            with unclaimed not_ov Some entry no_match True show ?thesis
              by (intro that(6) [of n r]) auto
          next
            case False
            note rm = False
            show ?thesis
            proof (cases "ln_ok e t \<and> new_entry e opts n \<noteq> None")
              case True
              then obtain ent where ent: "new_entry e opts n = Some ent" by auto
              have "s' = claim n t picon
                  (s\<lparr>origPiconLinks := AList.delete t (origPiconLinks s),
                     dir := AList.delete t (dir s) @ [(t, ent)],
                     linksMade := linksMade s + 1\<rparr>)"
                using flat3 rm True ent by (auto simp: tl s0_def Let_def)
              with unclaimed not_ov Some entry no_match rm True ent show ?thesis
              by (intro that(8) [of n r ent]) auto
            next
              case False
              have "s' = no_picon servRef picon (say (LinkFailed (useHardLinks opts) n t)
                  (s\<lparr>origPiconLinks := AList.delete t (origPiconLinks s),
                     dir := AList.delete t (dir s), linksMade := linksMade s + 1\<rparr>))"
                using flat3 rm False
                by (auto simp: tl s0_def Let_def split: option.splits)
              with unclaimed not_ov Some entry no_match rm False show ?thesis
              by (intro that(7) [of n r]) auto
            qed
          qed
        qed
      qed
    qed
  qed
qed

subsection \<open>The loop over the records\<close>

lemma foldl_reconcile_steps:
  "steps e opts s s1 \<Longrightarrow> steps e opts s (foldl (reconcile e opts servRef picon) s1 srps)"
  by (induction srps arbitrary: s1) (auto intro: steps.target)

lemma process_line_steps:
  assumes "process_line e opts s1 line = Inr s2" and "steps e opts s s1"
  shows "steps e opts s s2"
proof -
  have "steps e opts s (foldl (reconcile e opts servRef picon) (s1\<lparr>servRefPartsFold := fv\<rparr>) srps)"
    for servRef picon fv srps
    using assms(2) by (intro foldl_reconcile_steps steps.folded)
  with assms show ?thesis
    by (auto simp: process_line_def Let_def is_loop_msg_def intro: steps.printed
        split: if_splits sum.splits prod.splits)
qed

lemma makeLinks_loop_steps:
  "makeLinks_loop e opts s1 servrefFile = (out, s2) \<Longrightarrow> steps e opts s s1 \<Longrightarrow> steps e opts s s2"
proof (induction servrefFile arbitrary: s1)
  case Nil
  then show ?case by (auto simp: is_loop_msg_def intro: steps.printed)
next
  case (Cons line rest)
  show ?case
  proof (cases "process_line e opts s1 line")
    case (Inl err)
    with Cons.prems show ?thesis by simp
  next
    case (Inr s')
    with Cons.prems have "makeLinks_loop e opts s' rest = (out, s2)" by simp
    moreover have "steps e opts s s'"
      using Inr Cons.prems(2) by (rule process_line_steps)
    ultimately show ?thesis by (rule Cons.IH)
  qed
qed

lemma map_of_renew [simp]:
  "map_of (AList.delete t d @ [(t, ent)]) x = (if x = t then Some ent else map_of d x)"
  by (auto simp: map_add_def delete_conv' split: option.splits)

lemma map_add_renew [simp]:
  "([t \<mapsto> ent] ++ map_of (AList.delete t d)) x = (if x = t then Some ent else map_of d x)"
  by (auto simp: map_add_def delete_conv' split: option.splits)

lemma map_of_delete_if:
  "map_of (AList.delete t d) x = (if x = t then None else map_of d x)"
  by (simp add: delete_conv')

subsection \<open>Duplicate targets\<close>

lemma reconcile_claimed_kept:
  assumes "piconLinks s t = Some q"
  shows "piconLinks (reconcile e opts servRef picon s srp) t = Some q
       \<and> map_of (dir (reconcile e opts servRef picon s srp)) t = map_of (dir s) t"
proof -
  define s' where "s' = reconcile e opts servRef picon s srp"
  define u where "u = target_name srp"
  from s'_def u_def have "piconLinks s' t = Some q \<and> map_of (dir s') t = map_of (dir s) t"
    using assms
    by (cases rule: reconcile_cases) (auto simp: map_of_delete_if)
  then show ?thesis by (simp add: s'_def)
qed

lemma steps_claimed_kept:
  "steps e opts s s2 \<Longrightarrow> piconLinks s t = Some q \<Longrightarrow>
   piconLinks s2 t = Some q \<and> map_of (dir s2) t = map_of (dir s) t"
proof (induction rule: steps.induct)
  case (target s1 servRef picon srp)
  then show ?case using reconcile_claimed_kept [of s1 t q e opts servRef picon srp] by simp
qed simp_all

text \<open>
  C8. Two records that expand to the same target name, with different icon keys: the
  first one names the placeholder \<open>tba\<close>, for which there is no icon, so it does not
  obtain the target. The second record is then not ignored and no conflict is printed:
  its link is made.
\<close>

theorem C8_counterexample:
  "log (snd (makeLinks example_env (no_options\<lparr>full := True\<rparr>) (example_state [])
               [tba_line, good_line])) = [LinksMade 1]
   \<and> dir (snd (makeLinks example_env (no_options\<lparr>full := True\<rparr>) (example_state [])
               [tba_line, good_line]))
     = [(''1_0_1_4A_6_85_0_0_0_0.png'', Sym ''channel_picons/abc_wp.png'')]"
  by code_simp

text \<open>
  C8, as the code has it. When a record expands to a target name that an earlier record
  of the same run has obtained (the name is in \<open>piconLinks\<close>, with the icon key \<open>q\<close> of
  that record): with the same icon key the step changes nothing and prints nothing; with
  a different icon key the step only prints the conflict. In both cases, up to the end
  of \<open>makeLinks\<close>, whatever records follow, the name stays assigned to \<open>q\<close> and the
  directory entry under that name is the one the earlier record left.
\<close>

theorem C8_duplicate_of_claimed_target:
  assumes "piconLinks s (target_name srp) = Some q"
    and "makeLinks_loop e opts
           (foldl (reconcile e opts servRef picon) (reconcile e opts servRef picon s srp) srps)
           rest = (out, s2)"
  shows "reconcile e opts servRef picon s srp
           = (if picon = q then s else say (LinkExists servRef q picon) s)
       \<and> piconLinks s2 (target_name srp) = Some q
       \<and> map_of (dir s2) (target_name srp) = map_of (dir s) (target_name srp)"
proof -
  have "steps e opts s (reconcile e opts servRef picon s srp)"
    by (intro steps.target steps.here)
  then have "steps e opts s
      (foldl (reconcile e opts servRef picon) (reconcile e opts servRef picon s srp) srps)"
    by (rule foldl_reconcile_steps)
  with assms(2) have "steps e opts s s2"
    by (rule makeLinks_loop_steps)
  then have "piconLinks s2 (target_name srp) = Some q
      \<and> map_of (dir s2) (target_name srp) = map_of (dir s) (target_name srp)"
    using assms(1) by (rule steps_claimed_kept)
  moreover have "reconcile e opts servRef picon s srp
           = (if picon = q then s else say (LinkExists servRef q picon) s)"
    using assms(1) by (simp add: reconcile_flat)
  ultimately show ?thesis by simp
qed

theorem C8_duplicate_of_claimed_target_witness:
  "piconLinks claimed_state (target_name abc_parts) = Some ''abc''
   \<and> reconcile example_env (no_options\<lparr>full := True\<rparr>) ''1:0:1:4A:6:85:0:0:0:0'' ''sbs''
        claimed_state abc_parts
      = say (LinkExists ''1:0:1:4A:6:85:0:0:0:0'' ''abc'' ''sbs'') claimed_state
   \<and> piconLinks (snd (makeLinks_loop example_env (no_options\<lparr>full := True\<rparr>)
         (reconcile example_env (no_options\<lparr>full := True\<rparr>) ''1:0:1:4A:6:85:0:0:0:0''
            ''sbs'' claimed_state abc_parts) [])) (target_name abc_parts) = Some ''abc''
   \<and> map_of (dir (snd (makeLinks_loop example_env (no_options\<lparr>full := True\<rparr>)
         (reconcile example_env (no_options\<lparr>full := True\<rparr>) ''1:0:1:4A:6:85:0:0:0:0''
            ''sbs'' claimed_state abc_parts) []))) (target_name abc_parts)
      = Some (Sym ''channel_picons/abc_wp.png'')"
proof -
  have a: "piconLinks claimed_state (target_name abc_parts) = Some ''abc''"
    by (simp add: claimed_state_def abc_parts_def target_name_def)
  have d: "map_of (dir claimed_state) (target_name abc_parts)
        = Some (Sym ''channel_picons/abc_wp.png'')"
    by (simp add: claimed_state_def abc_parts_def target_name_def example_state_def
        new_state_def)
  let ?r = "reconcile example_env (no_options\<lparr>full := True\<rparr>) ''1:0:1:4A:6:85:0:0:0:0''
              ''sbs'' claimed_state abc_parts"
  let ?m = "makeLinks_loop example_env (no_options\<lparr>full := True\<rparr>) ?r []"
  have h: "makeLinks_loop example_env (no_options\<lparr>full := True\<rparr>)
             (foldl (reconcile example_env (no_options\<lparr>full := True\<rparr>)
                ''1:0:1:4A:6:85:0:0:0:0'' ''sbs'') ?r []) [] = (fst ?m, snd ?m)"
    by (simp only: foldl_Nil prod.collapse)
  note inst = C8_duplicate_of_claimed_target [OF a h]
  have c1: "?r = say (LinkExists ''1:0:1:4A:6:85:0:0:0:0'' ''abc'' ''sbs'') claimed_state"
    using inst [THEN conjunct1] by simp
  have c2: "piconLinks (snd ?m) (target_name abc_parts) = Some ''abc''"
    using inst [THEN conjunct2, THEN conjunct1] .
  have c3: "map_of (dir (snd ?m)) (target_name abc_parts)
      = Some (Sym ''channel_picons/abc_wp.png'')"
    using inst [THEN conjunct2, THEN conjunct2] d by (rule trans)
  show ?thesis
    by (intro conjI a c1 c2 c3)
qed

subsection \<open>A target is recorded only when its link exists\<close>





subsection \<open>Plain files in the output directory\<close>

lemma filter_delete_other:
  assumes "filter P d = [(t, v)]" and "u \<noteq> t"
  shows "filter P (AList.delete u d) = [(t, v)]"
proof -
  have "filter P (AList.delete u d) = filter (\<lambda>(k, _). u \<noteq> k) (filter P d)"
    by (simp add: AList.delete_eq conj_commute case_prod_unfold)
  with assms show ?thesis by simp
qed

lemma plain_file_start:
  assumes "map_of d t = Some (Reg J)" and "st_nlink e d J = 1"
  shows "filter (\<lambda>ne. snd ne = Reg J) d = [(t, Reg J)] \<and> ext_links e J = 0"
proof -
  have mem: "(t, Reg J) \<in> set (filter (\<lambda>ne. snd ne = Reg J) d)"
    using assms(1) by (auto dest: map_of_SomeD)
  then have "length (filter (\<lambda>ne. snd ne = Reg J) d) \<ge> 1"
    by (cases "filter (\<lambda>ne. snd ne = Reg J) d") auto
  with assms(2) have len: "length (filter (\<lambda>ne. snd ne = Reg J) d) = 1"
    and ext: "ext_links e J = 0"
    by (auto simp: st_nlink_def)
  from len obtain x where "filter (\<lambda>ne. snd ne = Reg J) d = [x]"
    by (cases "filter (\<lambda>ne. snd ne = Reg J) d") auto
  with mem ext show ?thesis by auto
qed

lemma kept_refType:
  assumes "kept e t J s"
  shows "refType e (dir s) t = IS_FILE" and "path_exists e (dir s) t"
  using assms
  by (auto simp: kept_def refType_def path_islink_def path_isfile_def path_exists_def
      st_nlink_def)

lemma new_entry_not_plain:
  assumes "useHardLinks opts \<longrightarrow> wf_env e" and "ext_links e J = 0"
    and "new_entry e opts n = Some ent"
  shows "ent \<noteq> Reg J"
proof
  assume "ent = Reg J"
  with assms(3) have "useHardLinks opts" and "stat_rel e (chan_path n) = Some J"
    by (auto simp: new_entry_def split: if_splits)
  with assms(1) have "1 \<le> ext_links e J"
    unfolding wf_env_def by blast
  with assms(2) show False by simp
qed

lemma kept_say:
  "kept e t J s \<Longrightarrow> \<not> is_override_msg t m \<Longrightarrow> m \<noteq> CantRemove t \<Longrightarrow> kept e t J (say m s)"
  by (simp add: kept_def)

lemma kept_no_picon:
  "kept e t J s \<Longrightarrow> kept e t J (no_picon servRef picon s)"
  by (simp add: no_picon_def kept_say is_override_msg_def)

lemma kept_reconcile:
  assumes wf: "useHardLinks opts \<longrightarrow> wf_env e" and k: "kept e t J s"
  shows "kept e t J (reconcile e opts servRef picon s srp)"
proof -
  define s' where "s' = reconcile e opts servRef picon s srp"
  define u where "u = target_name srp"
  note ov = kept_refType [OF k]
  from k have ext: "ext_links e J = 0" by (simp add: kept_def)
  from s'_def u_def have "kept e t J s'"
  proof (cases rule: reconcile_cases)
    case same
    with k show ?thesis by simp
  next
    case (conflict old)
    with k show ?thesis by (simp add: kept_say is_override_msg_def)
  next
    case override
    with k show ?thesis by (auto simp: kept_def is_override_msg_def)
  next
    case nopicon
    with k show ?thesis by (simp add: kept_no_picon)
  next
    case (matched n r)
    with k ov have "u \<noteq> t" by auto
    with matched k show ?thesis by (auto simp: kept_def)
  next
    case (rmfail n r)
    with k ov have ne: "u \<noteq> t" by auto
    have "kept e t J (s\<lparr>origPiconLinks := AList.delete u (origPiconLinks s)\<rparr>)"
      using k ne by (auto simp: kept_def)
    then show ?thesis
      unfolding rmfail(7) using ne
      by (intro kept_no_picon kept_say) (auto simp: is_override_msg_def)
  next
    case (lnfail n r)
    with k ov have ne: "u \<noteq> t" by auto
    have "kept e t J (s\<lparr>origPiconLinks := AList.delete u (origPiconLinks s),
                 dir := AList.delete u (dir s), linksMade := linksMade s + 1\<rparr>)"
      using k ne by (auto simp: kept_def filter_delete_other)
    then show ?thesis
      unfolding lnfail(7) using ne
      by (intro kept_no_picon kept_say) (auto simp: is_override_msg_def)
  next
    case (linked n r ent)
    with k ov have ne: "u \<noteq> t" by auto
    from wf ext linked(7) have "ent \<noteq> Reg J" by (rule new_entry_not_plain)
    with linked k ne show ?thesis by (auto simp: kept_def filter_delete_other)
  qed
  then show ?thesis by (simp add: s'_def)
qed

lemma kept_steps:
  "steps e opts s s2 \<Longrightarrow> useHardLinks opts \<longrightarrow> wf_env e \<Longrightarrow> kept e t J s \<Longrightarrow>
   kept e t J s2"
proof (induction rule: steps.induct)
  case (printed s1 m)
  then show ?case
    by (intro kept_say) (auto simp: is_loop_msg_def is_override_msg_def split: msg.splits)
next
  case (folded s1 fv)
  then show ?case by (simp add: kept_def)
qed (auto intro: kept_reconcile)

lemma kept_clean_loop:
  "t \<notin> set names \<Longrightarrow> kept e t J s \<Longrightarrow> kept e t J (clean_loop e names s)"
proof (induction names arbitrary: s)
  case Nil
  then show ?case by simp
next
  case (Cons u rest)
  then have ne: "u \<noteq> t" and rest: "t \<notin> set rest" by auto
  show ?case
  proof (cases "os_remove e (dir s) u")
    case None
    have "kept e t J (say (CantRemove u) s)"
      using Cons.prems(2) ne by (intro kept_say) (auto simp: is_override_msg_def)
    with None rest show ?thesis by (simp add: Cons.IH)
  next
    case (Some d')
    then have d': "d' = AList.delete u (dir s)"
      by (auto simp: os_remove_def split: if_splits)
    have "kept e t J (s\<lparr>dir := d'\<rparr>)"
      using Cons.prems(2) ne by (auto simp: kept_def d' filter_delete_other)
    with Some rest show ?thesis by (simp add: Cons.IH)
  qed
qed

lemma kept_clean_names:
  "t \<notin> set names \<Longrightarrow> kept e t J s \<Longrightarrow> kept e t J (clean_names e names s)"
  unfolding clean_names_def
  by (intro kept_clean_loop kept_say) (auto simp: is_override_msg_def)

lemma kept_orig_update:
  "kept e t J s \<Longrightarrow> map_of orig t = None \<Longrightarrow> kept e t J (s\<lparr>origPiconLinks := orig\<rparr>)"
  by (simp add: kept_def)

lemma kept_clean:
  assumes "kept e t J s"
  shows "kept e t J (clean e s)"
proof -
  from assms have "t \<notin> set (map fst (origPiconLinks s))"
    by (simp add: kept_def map_of_eq_None_iff)
  then have "kept e t J (clean_names e (map fst (origPiconLinks s)) s)"
    using assms by (rule kept_clean_names)
  then show ?thesis
    unfolding clean_def by (rule kept_orig_update) simp
qed

lemma scan_links_plain:
  assumes "refType e d t = IS_FILE"
  shows "scan_links e hard d names acc = Some res \<Longrightarrow>
         map_of (fst acc) t = None \<Longrightarrow> t \<notin> set (snd acc) \<Longrightarrow>
         map_of (fst res) t = None \<and> t \<notin> set (snd res)"
proof (induction names arbitrary: acc)
  case Nil
  then show ?case by simp
next
  case (Cons u rest)
  show ?case
  proof (cases "refType e d u = IS_SLINK \<or> refType e d u = IS_HLINK")
    case False
    with Cons show ?thesis by (simp add: Let_def)
  next
    case True
    with assms have ne: "u \<noteq> t" by auto
    from True Cons.prems(1) obtain linkRef where lr: "getLinkRef e d u = Some linkRef"
      by (cases "getLinkRef e d u") (auto simp: Let_def)
    show ?thesis
    proof (cases "hard = (refType e d u = IS_HLINK)")
      case True
      with Cons.prems \<open>refType e d u = IS_SLINK \<or> refType e d u = IS_HLINK\<close> lr
      have "scan_links e hard d rest (AList.update u linkRef (fst acc), snd acc) = Some res"
        by (simp add: Let_def)
      moreover have "map_of (fst (AList.update u linkRef (fst acc), snd acc)) t = None"
        using Cons.prems(2) ne by (simp add: update_conv')
      ultimately show ?thesis
        using Cons.prems(3) Cons.IH [of "(AList.update u linkRef (fst acc), snd acc)"] by simp
    next
      case False
      with Cons.prems \<open>refType e d u = IS_SLINK \<or> refType e d u = IS_HLINK\<close> lr
      have "scan_links e hard d rest (fst acc, snd acc @ [u]) = Some res"
        by (simp add: Let_def)
      then show ?thesis
        using Cons.prems(2,3) ne Cons.IH [of "(fst acc, snd acc @ [u])"] by simp
    qed
  qed
qed

lemma picon_step_msgs: "\<forall>m \<in> set (snd (picon_step e pf n)). is_renamed m"
  by (auto simp: picon_step_def Let_def is_renamed_def split: prod.splits option.splits if_splits)

lemma makePiconFileList_loop_msgs:
  "\<forall>m \<in> set printed. is_renamed m \<Longrightarrow>
   \<forall>m \<in> set (snd (makePiconFileList_loop e names pf printed)). is_renamed m"
proof (induction names arbitrary: pf printed)
  case Nil
  then show ?case by simp
next
  case (Cons n ns)
  obtain r ms where st: "picon_step e pf n = (r, ms)" by (cases "picon_step e pf n")
  with picon_step_msgs [of e pf n] have ms: "\<forall>m \<in> set ms. is_renamed m" by simp
  with Cons.prems have all: "\<forall>m \<in> set (printed @ ms). is_renamed m" by auto
  show ?case
  proof (cases r)
    case None
    with st all show ?thesis by simp
  next
    case (Some pf')
    with st Cons.IH [OF all, of pf'] show ?thesis by simp
  qed
qed

lemma kept_printed:
  assumes "kept e t J s" and "\<forall>m \<in> set ms. \<not> is_override_msg t m \<and> m \<noteq> CantRemove t"
  shows "kept e t J (s\<lparr>piconFiles := pf, log := log s @ ms\<rparr>)"
  using assms by (auto simp: kept_def)

lemma renamed_harmless: "is_renamed m \<Longrightarrow> \<not> is_override_msg t m \<and> m \<noteq> CantRemove t"
  by (cases m) (auto simp: is_renamed_def is_override_msg_def)

lemma kept_new_state:
  assumes "map_of d t = Some (Reg J)" and "st_nlink e d J = 1"
  shows "kept e t J (new_state d)"
  using plain_file_start [OF assms] assms(1) by (simp add: kept_def new_state_def)

lemma kept_makePiconFileList:
  assumes "kept e t J s" and "log s = []"
  shows "case makePiconFileList e s of
           (None, ms) \<Rightarrow> kept e t J (s\<lparr>log := ms\<rparr>)
         | (Some s1, ms) \<Rightarrow> kept e t J s1"
proof (cases "chan_listing e")
  case None
  with assms show ?thesis
    by (auto simp: makePiconFileList_def kept_def is_override_msg_def)
next
  case (Some names)
  obtain r ms where lp: "makePiconFileList_loop e names Map.empty [] = (r, ms)"
    by (cases "makePiconFileList_loop e names Map.empty []")
  have "\<forall>m \<in> set (snd (makePiconFileList_loop e names Map.empty [])). is_renamed m"
    by (rule makePiconFileList_loop_msgs) simp
  with lp have ms: "\<forall>m \<in> set ms. \<not> is_override_msg t m \<and> m \<noteq> CantRemove t"
    by (auto dest: renamed_harmless)
  show ?thesis
  proof (cases r)
    case None
    have "kept e t J (s\<lparr>log := ms @ [CantProcessImageDir]\<rparr>)"
      using assms ms by (auto simp: kept_def is_override_msg_def)
    with Some lp None show ?thesis by (simp add: makePiconFileList_def)
  next
    case (Some pf)
    with \<open>chan_listing e = Some names\<close> lp kept_printed [OF assms(1) ms, of pf]
    show ?thesis by (simp add: makePiconFileList_def)
  qed
qed

lemma kept_cleanWrongLinks:
  assumes "kept e t J s" and "cleanWrongLinks e opts s = Some s2"
  shows "kept e t J s2"
proof -
  from assms(2) obtain orig wrong where
    sc: "scan_links e (useHardLinks opts) (dir s) (filter has_png_ext (map fst (dir s)))
           (origPiconLinks s, []) = Some (orig, wrong)"
    and s2: "s2 = (if cleanAll opts
                   then clean e (clean_names e wrong (s\<lparr>origPiconLinks := orig\<rparr>))
                   else clean_names e wrong (s\<lparr>origPiconLinks := orig\<rparr>))"
    by (auto simp: cleanWrongLinks_def Let_def split: if_splits option.splits)
  from assms(1) have "map_of (fst (origPiconLinks s, [])) t = None" "t \<notin> set (snd (origPiconLinks s, []::string list))"
    by (simp_all add: kept_def)
  with scan_links_plain [OF kept_refType(1) [OF assms(1)] sc]
  have o: "map_of orig t = None" and w: "t \<notin> set wrong" by simp_all
  have "kept e t J (clean_names e wrong (s\<lparr>origPiconLinks := orig\<rparr>))"
    using w assms(1) o by (intro kept_clean_names kept_orig_update)
  then show ?thesis unfolding s2 by (simp add: kept_clean)
qed

lemma kept_init:
  assumes "map_of d t = Some (Reg J)" and "st_nlink e d J = 1"
  shows "kept e t J (snd (init e opts d))"
proof -
  note k0 = kept_new_state [OF assms]
  have l0: "log (new_state d) = []" by (simp add: new_state_def)
  obtain r ms where mk: "makePiconFileList e (new_state d) = (r, ms)"
    by (cases "makePiconFileList e (new_state d)")
  show ?thesis
  proof (cases r)
    case None
    with mk kept_makePiconFileList [OF k0 l0] show ?thesis by (simp add: init_def)
  next
    case (Some s1)
    with mk kept_makePiconFileList [OF k0 l0] have k1: "kept e t J s1" by simp
    show ?thesis
    proof (cases "cleanWrongLinks e opts s1")
      case None
      have "kept e t J (say CantProcessLinkDir s1)"
        using k1 by (intro kept_say) (auto simp: is_override_msg_def)
      with mk Some None show ?thesis by (simp add: init_def)
    next
      case (Some s2)
      with k1 have "kept e t J s2" by (rule kept_cleanWrongLinks)
      with mk \<open>r = Some s1\<close> Some show ?thesis by (simp add: init_def)
    qed
  qed
qed

lemma kept_makeLinks:
  assumes "useHardLinks opts \<longrightarrow> wf_env e" and "kept e t J s"
  shows "kept e t J (snd (makeLinks e opts s servrefFile))"
proof -
  let ?s0 = "s\<lparr>piconLinks := Map.empty, linksMade := 0, servRefPartsFold := None\<rparr>"
  have k0: "kept e t J ?s0" using assms(2) by (simp add: kept_def)
  obtain out s2 where ml: "makeLinks_loop e opts ?s0 servrefFile = (out, s2)"
    by (cases "makeLinks_loop e opts ?s0 servrefFile")
  then have "steps e opts ?s0 s2" by (rule makeLinks_loop_steps) (rule steps.here)
  then have "kept e t J s2" using assms(1) k0 by (rule kept_steps)
  with ml show ?thesis by (simp add: makeLinks_def)
qed

lemma kept_run:
  assumes "map_of d t = Some (Reg J)" and "st_nlink e d J = 1"
    and "useHardLinks opts \<longrightarrow> wf_env e"
  shows "kept e t J (snd (run e opts servrefFile d))"
proof -
  obtain o1 s1 where i: "init e opts d = (o1, s1)" by (cases "init e opts d")
  with kept_init [OF assms(1,2), of opts] have k1: "kept e t J s1" by simp
  obtain o2 s2 where m: "makeLinks e opts s1 servrefFile = (o2, s2)"
    by (cases "makeLinks e opts s1 servrefFile")
  with kept_makeLinks [OF assms(3) k1, of servrefFile] have k2: "kept e t J s2" by simp
  have k3: "kept e t J (clean e s2)" using k2 by (rule kept_clean)
  have k4: "kept e t J (say CantWriteIndex s2)"
    using k2 by (intro kept_say) (auto simp: is_override_msg_def)
  from i m k1 k2 k3 k4 show ?thesis
    by (cases o1; cases o2) (auto simp: run_def)
qed

lemma refType_FILE_iff:
  "refType e d t = IS_FILE \<longleftrightarrow> (\<exists>J. map_of d t = Some (Reg J) \<and> st_nlink e d J = 1)"
proof
  assume "refType e d t = IS_FILE"
  then obtain J where J: "map_of d t = Some (Reg J)" and n: "\<not> st_nlink e d J > 1"
    by (auto simp: refType_def path_islink_def path_isfile_def
        split: option.splits dirent.splits if_splits)
  from J have "(t, Reg J) \<in> set (filter (\<lambda>ne. snd ne = Reg J) d)"
    by (auto dest: map_of_SomeD)
  then have "length (filter (\<lambda>ne. snd ne = Reg J) d) \<ge> 1"
    by (cases "filter (\<lambda>ne. snd ne = Reg J) d") auto
  with n have "st_nlink e d J = 1" by (simp add: st_nlink_def)
  with J show "\<exists>J. map_of d t = Some (Reg J) \<and> st_nlink e d J = 1" by blast
next
  assume "\<exists>J. map_of d t = Some (Reg J) \<and> st_nlink e d J = 1"
  then show "refType e d t = IS_FILE"
    by (auto simp: refType_def path_islink_def path_isfile_def)
qed

text \<open>
  A name of the output directory that is a plain regular file when the run starts
  (\<open>refType\<close> classifies it \<open>IS_FILE\<close> in the directory the run is given) is still that
  same file, with one link, when the run is over, whatever the mapping database and the
  options are and however the run ends. The wrong-kind cleanup and the end-of-run
  cleanup did not schedule it (it is not in \<open>origPiconLinks\<close>, and no removal of it was
  ever attempted and refused), no record obtained it as a link, and its override was
  printed at most once. In hard-link mode this needs the files under \<open>channel_picons\<close>
  to be directory entries of their own. Nothing is said here about a name that is a
  hard link when the run starts and has one link left when a record reaches it.
\<close>

lemma plain_file_at_start_never_touched:
  assumes "refType e d t = IS_FILE" and "useHardLinks opts \<longrightarrow> wf_env e"
  shows "map_of (dir (snd (run e opts servrefFile d))) t = map_of d t
       \<and> refType e (dir (snd (run e opts servrefFile d))) t = IS_FILE
       \<and> map_of (origPiconLinks (snd (run e opts servrefFile d))) t = None
       \<and> piconLinks (snd (run e opts servrefFile d)) t = None
       \<and> CantRemove t \<notin> set (log (snd (run e opts servrefFile d)))
       \<and> length (filter (is_override_msg t) (log (snd (run e opts servrefFile d)))) \<le> 1"
proof -
  from assms(1) obtain J where J: "map_of d t = Some (Reg J)" "st_nlink e d J = 1"
    unfolding refType_FILE_iff by blast
  from kept_run [OF J assms(2)] have k: "kept e t J (snd (run e opts servrefFile d))" .
  from kept_refType(1) [OF k] k J(1) show ?thesis
    by (auto simp: kept_def)
qed

lemma plain_file_at_start_example:
  "refType example_env plain_dir ''1_0_1_4A_6_85_0_0_0_0.png'' = IS_FILE
   \<and> useHardLinks (no_options\<lparr>full := True\<rparr>) = False
   \<and> map_of (dir (snd (run example_env (no_options\<lparr>full := True\<rparr>) [good_line] plain_dir)))
        ''1_0_1_4A_6_85_0_0_0_0.png'' = Some (Reg (2, 7))
   \<and> refType example_env (dir (snd (run example_env (no_options\<lparr>full := True\<rparr>)
        [good_line] plain_dir))) ''1_0_1_4A_6_85_0_0_0_0.png'' = IS_FILE"
proof -
  have a: "refType example_env plain_dir ''1_0_1_4A_6_85_0_0_0_0.png'' = IS_FILE"
    by code_simp
  have b: "useHardLinks (no_options\<lparr>full := True\<rparr>) \<longrightarrow> wf_env example_env"
    by (simp add: no_options_def)
  have m: "map_of plain_dir ''1_0_1_4A_6_85_0_0_0_0.png'' = Some (Reg (2, 7))"
    by (simp add: plain_dir_def)
  note inst = plain_file_at_start_never_touched [OF a b, of "[good_line]"]
  from inst m have c1: "map_of (dir (snd (run example_env (no_options\<lparr>full := True\<rparr>)
      [good_line] plain_dir))) ''1_0_1_4A_6_85_0_0_0_0.png'' = Some (Reg (2, 7))"
    by simp
  from inst have c2: "refType example_env (dir (snd (run example_env
      (no_options\<lparr>full := True\<rparr>) [good_line] plain_dir))) ''1_0_1_4A_6_85_0_0_0_0.png''
      = IS_FILE"
    by blast
  have b': "useHardLinks (no_options\<lparr>full := True\<rparr>) = False"
    by (simp add: no_options_def)
  show ?thesis by (intro conjI a b' c1 c2)
qed

subsection \<open>Stale links\<close>

lemma clean_loop_fields [simp]:
  "piconFiles (clean_loop e names s) = piconFiles s"
  "origPiconLinks (clean_loop e names s) = origPiconLinks s"
  "piconLinks (clean_loop e names s) = piconLinks s"
  "overrides (clean_loop e names s) = overrides s"
  "linksMade (clean_loop e names s) = linksMade s"
  by (induction names arbitrary: s; simp split: option.splits)+

lemma clean_loop_other:
  "t \<notin> set names \<Longrightarrow> map_of (dir (clean_loop e names s)) t = map_of (dir s) t"
  by (induction names arbitrary: s)
     (auto simp: os_remove_def map_of_delete_if split: option.splits if_splits)

lemma clean_loop_absent:
  "map_of (dir s) t = None \<Longrightarrow> map_of (dir (clean_loop e names s)) t = None"
  by (induction names arbitrary: s)
     (auto simp: os_remove_def map_of_delete_if split: option.splits if_splits)

lemma clean_loop_removed:
  "t \<in> set names \<Longrightarrow> rm_ok e t \<Longrightarrow> map_of (dir (clean_loop e names s)) t = None"
proof (induction names arbitrary: s)
  case Nil
  then show ?case by simp
next
  case (Cons u rest)
  show ?case
  proof (cases "u = t")
    case True
    show ?thesis
    proof (cases "map_of (dir s) t")
      case None
      then have "map_of (dir (say (CantRemove t) s)) t = None" by simp
      then have "map_of (dir (clean_loop e rest (say (CantRemove t) s))) t = None"
        by (rule clean_loop_absent)
      with None True show ?thesis by (simp add: os_remove_def)
    next
      case (Some ent)
      have "map_of (dir (s\<lparr>dir := AList.delete t (dir s)\<rparr>)) t = None" by simp
      then have "map_of (dir (clean_loop e rest (s\<lparr>dir := AList.delete t (dir s)\<rparr>))) t = None"
        by (rule clean_loop_absent)
      with Some True Cons.prems(2) show ?thesis by (simp add: os_remove_def)
    qed
  next
    case False
    with Cons.prems have "t \<in> set rest" by simp
    then show ?thesis
      using Cons.prems(2) Cons.IH by (simp split: option.splits)
  qed
qed

lemma clean_names_fields [simp]:
  "piconFiles (clean_names e names s) = piconFiles s"
  "origPiconLinks (clean_names e names s) = origPiconLinks s"
  "piconLinks (clean_names e names s) = piconLinks s"
  "overrides (clean_names e names s) = overrides s"
  "linksMade (clean_names e names s) = linksMade s"
  by (simp_all add: clean_names_def)

lemma clean_names_dir:
  "t \<notin> set names \<Longrightarrow> map_of (dir (clean_names e names s)) t = map_of (dir s) t"
  "map_of (dir s) t = None \<Longrightarrow> map_of (dir (clean_names e names s)) t = None"
  "t \<in> set names \<Longrightarrow> rm_ok e t \<Longrightarrow> map_of (dir (clean_names e names s)) t = None"
  by (simp_all add: clean_names_def clean_loop_other clean_loop_absent clean_loop_removed)

lemma clean_fields [simp]:
  "piconFiles (clean e s) = piconFiles s" "origPiconLinks (clean e s) = []"
  "piconLinks (clean e s) = piconLinks s" "overrides (clean e s) = overrides s"
  "linksMade (clean e s) = linksMade s"
  by (simp_all add: clean_def)

lemma clean_dir:
  "map_of (origPiconLinks s) t = None \<Longrightarrow> map_of (dir (clean e s)) t = map_of (dir s) t"
  "map_of (dir s) t = None \<Longrightarrow> map_of (dir (clean e s)) t = None"
  "map_of (origPiconLinks s) t \<noteq> None \<Longrightarrow> rm_ok e t \<Longrightarrow> map_of (dir (clean e s)) t = None"
proof -
  show "map_of (origPiconLinks s) t = None \<Longrightarrow> map_of (dir (clean e s)) t = map_of (dir s) t"
    by (simp add: clean_def clean_names_dir(1) map_of_eq_None_iff)
  show "map_of (dir s) t = None \<Longrightarrow> map_of (dir (clean e s)) t = None"
    by (simp add: clean_def clean_names_dir(2))
  show "map_of (origPiconLinks s) t \<noteq> None \<Longrightarrow> rm_ok e t \<Longrightarrow> map_of (dir (clean e s)) t = None"
    by (simp add: clean_def clean_names_dir(3) map_of_eq_None_iff)
qed

lemma pending_clean: "pending t s \<Longrightarrow> rm_ok e t \<Longrightarrow> piconLinks s t = None \<Longrightarrow>
  map_of (dir (clean e s)) t = None"
  unfolding pending_def using clean_dir(2,3) [of s t e] by blast

lemma pending_reconcile:
  assumes "rm_ok e t" and "pending t s"
  shows "pending t (reconcile e opts servRef picon s srp)"
proof -
  define s' where "s' = reconcile e opts servRef picon s srp"
  define u where "u = target_name srp"
  from s'_def u_def have "pending t s'"
    using assms
    by (cases rule: reconcile_cases; cases "u = t")
       (auto simp: pending_def map_of_delete_if)
  then show ?thesis by (simp add: s'_def)
qed

lemma pending_steps:
  "steps e opts s s2 \<Longrightarrow> rm_ok e t \<Longrightarrow> pending t s \<Longrightarrow> pending t s2"
proof (induction rule: steps.induct)
  case (target s1 servRef picon srp)
  then show ?case by (simp add: pending_reconcile)
qed (simp_all add: pending_def)

lemma scan_links_keeps:
  "scan_links e hard d names acc = Some res \<Longrightarrow> map_of (fst acc) t \<noteq> None \<Longrightarrow>
   map_of (fst res) t \<noteq> None"
proof (induction names arbitrary: acc)
  case Nil
  then show ?case by simp
next
  case (Cons u rest)
  have upd: "map_of (AList.update u v (fst acc)) t \<noteq> None" for v
    using Cons.prems(2) by (simp add: update_conv')
  from Cons.prems(1) show ?case
    using Cons.IH [of "(AList.update u (the (getLinkRef e d u)) (fst acc), snd acc)"]
      Cons.IH [of "(fst acc, snd acc @ [u])"] Cons.IH [of acc] Cons.prems(2) upd
    by (auto simp: Let_def split: if_splits option.splits)
qed

lemma scan_links_baseline:
  assumes "refType e d t = (if hard then IS_HLINK else IS_SLINK)"
  shows "scan_links e hard d names acc = Some res \<Longrightarrow> t \<in> set names \<Longrightarrow>
         map_of (fst res) t \<noteq> None"
proof (induction names arbitrary: acc)
  case Nil
  then show ?case by simp
next
  case (Cons u rest)
  show ?case
  proof (cases "u = t")
    case True
    from Cons.prems(1) True assms obtain linkRef where
      "scan_links e hard d rest (AList.update t linkRef (fst acc), snd acc) = Some res"
      by (auto simp: Let_def split: if_splits option.splits)
    then show ?thesis
      by (rule scan_links_keeps) (simp add: update_conv')
  next
    case False
    with Cons.prems(2) have "t \<in> set rest" by simp
    with Cons.prems(1) show ?thesis
      using Cons.IH [of "(AList.update u (the (getLinkRef e d u)) (fst acc), snd acc)"]
        Cons.IH [of "(fst acc, snd acc @ [u])"] Cons.IH [of acc]
      by (auto simp: Let_def split: if_splits option.splits)
  qed
qed

lemma scan_links_wrong:
  assumes "refType e d t = (if hard then IS_HLINK else IS_SLINK)"
  shows "scan_links e hard d names acc = Some res \<Longrightarrow> t \<notin> set (snd acc) \<Longrightarrow>
         t \<notin> set (snd res)"
proof (induction names arbitrary: acc)
  case Nil
  then show ?case by simp
next
  case (Cons u rest)
  from Cons.prems assms show ?case
    using Cons.IH [of "(AList.update u (the (getLinkRef e d u)) (fst acc), snd acc)"]
      Cons.IH [of "(fst acc, snd acc @ [u])"] Cons.IH [of acc]
    by (cases "u = t") (auto simp: Let_def split: if_splits option.splits)
qed

lemma refType_link_present:
  "refType e d t = IS_HLINK \<or> refType e d t = IS_SLINK \<Longrightarrow> t \<in> set (map fst d)"
  by (auto simp: refType_def path_islink_def path_isfile_def
      split: option.splits dirent.splits if_splits dest!: map_of_SomeD) force+

lemma pending_cleanWrongLinks:
  assumes "cleanWrongLinks e opts s = Some s2" and "has_png_ext t"
    and "refType e (dir s) t = configured_kind opts" and "rm_ok e t"
  shows "pending t s2"
proof -
  from assms(1) obtain orig wrong where
    sc: "scan_links e (useHardLinks opts) (dir s) (filter has_png_ext (map fst (dir s)))
           (origPiconLinks s, []) = Some (orig, wrong)"
    and s2: "s2 = (if cleanAll opts
                   then clean e (clean_names e wrong (s\<lparr>origPiconLinks := orig\<rparr>))
                   else clean_names e wrong (s\<lparr>origPiconLinks := orig\<rparr>))"
    by (auto simp: cleanWrongLinks_def Let_def split: if_splits option.splits)
  have kind: "refType e (dir s) t = (if useHardLinks opts then IS_HLINK else IS_SLINK)"
    using assms(3) by (simp add: configured_kind_def)
  then have "refType e (dir s) t = IS_HLINK \<or> refType e (dir s) t = IS_SLINK"
    by (simp split: if_splits)
  then have "t \<in> set (map fst (dir s))"
    by (rule refType_link_present)
  with assms(2) have mem: "t \<in> set (filter has_png_ext (map fst (dir s)))" by simp
  from scan_links_baseline [OF kind sc mem] have o: "map_of orig t \<noteq> None" by simp
  show ?thesis
  proof (cases "cleanAll opts")
    case False
    with s2 o show ?thesis by (simp add: pending_def)
  next
    case True
    have "map_of (origPiconLinks (clean_names e wrong (s\<lparr>origPiconLinks := orig\<rparr>))) t \<noteq> None"
      using o by simp
    from clean_dir(3) [OF this assms(4)] True s2 show ?thesis by (simp add: pending_def)
  qed
qed

lemma init_fields:
  assumes "init e opts d = (Completed, s0)"
  shows "piconLinks s0 = Map.empty"
    and "\<exists>s1. cleanWrongLinks e opts s1 = Some s0 \<and> dir s1 = d \<and> origPiconLinks s1 = []"
proof -
  from assms obtain s1 ms where mk: "makePiconFileList e (new_state d) = (Some s1, ms)"
    and cw: "cleanWrongLinks e opts s1 = Some s0"
    by (auto simp: init_def split: prod.splits option.splits)
  from mk have s1: "dir s1 = d" "origPiconLinks s1 = []" "piconLinks s1 = Map.empty"
    by (auto simp: makePiconFileList_def new_state_def split: option.splits prod.splits)
  from cw s1(3) show "piconLinks s0 = Map.empty"
    by (auto simp: cleanWrongLinks_def Let_def split: if_splits option.splits)
  from cw s1 show "\<exists>s1. cleanWrongLinks e opts s1 = Some s0 \<and> dir s1 = d \<and> origPiconLinks s1 = []"
    by blast
qed

lemma run_Completed:
  assumes "run e opts servrefFile d = (Completed, sf)"
  obtains s0 s2 where "init e opts d = (Completed, s0)"
    and "makeLinks_loop e opts
           (s0\<lparr>piconLinks := Map.empty, linksMade := 0, servRefPartsFold := None\<rparr>)
           servrefFile = (Completed, s2)"
    and "sf = clean e s2" and "index_ok e"
proof -
  obtain o1 s0 where i: "init e opts d = (o1, s0)" by (cases "init e opts d")
  obtain o2 s2 where m: "makeLinks e opts s0 servrefFile = (o2, s2)"
    by (cases "makeLinks e opts s0 servrefFile")
  from assms i m have "o1 = Completed \<and> o2 = Completed \<and> sf = clean e s2 \<and> index_ok e"
    by (cases o1; cases o2) (simp_all add: run_def split: if_splits)
  then have "o1 = Completed" "o2 = Completed" "sf = clean e s2" "index_ok e"
    by simp_all
  with i m that show ?thesis by (simp add: makeLinks_def)
qed


text \<open>
  C4. With \<open>addfold\<close>, a database whose only record has a non-numeric field 0, and an
  output directory holding one symbolic link that no record obtains: the run dies with
  the uncaught \<open>ValueError\<close> before \<open>clean()\<close>, and the stale link is still there.
\<close>

theorem C4_counterexample:
  "refType example_env [(''old.png'', Sym ''channel_picons/sbs.png'')] ''old.png'' = IS_SLINK
   \<and> fst (run example_env (no_options\<lparr>addfold := True\<rparr>) [bad_line]
           [(''old.png'', Sym ''channel_picons/sbs.png'')]) = Uncaught ValueError
   \<and> piconLinks (snd (run example_env (no_options\<lparr>addfold := True\<rparr>) [bad_line]
           [(''old.png'', Sym ''channel_picons/sbs.png'')])) ''old.png'' = None
   \<and> dir (snd (run example_env (no_options\<lparr>addfold := True\<rparr>) [bad_line]
           [(''old.png'', Sym ''channel_picons/sbs.png'')]))
     = [(''old.png'', Sym ''channel_picons/sbs.png'')]"
  by code_simp


text \<open>
  C4, as the code has it. When the run reaches its end (the constructor and \<open>makeLinks\<close>
  complete, \<open>index.html\<close> is written): every name with the extension \<open>.png\<close> that was a
  link of the configured kind in the output directory before the run, that no record
  of the database has obtained, and that the operating system lets the process remove,
  is gone from the directory. The names that were plain files before the run are not
  part of any removal: their entries are the ones from before the run.
\<close>

theorem C4_stale_link_removed:
  assumes "run e opts servrefFile d = (Completed, sf)"
    and "has_png_ext t" and "refType e d t = configured_kind opts"
    and "rm_ok e t" and "piconLinks sf t = None"
    and "useHardLinks opts \<longrightarrow> wf_env e"
  shows "map_of (dir sf) t = None
       \<and> (\<forall>u. refType e d u = IS_FILE \<longrightarrow> map_of (dir sf) u = map_of d u)"
proof -
  from assms(1) obtain s0 s2 where i: "init e opts d = (Completed, s0)"
    and m: "makeLinks_loop e opts
           (s0\<lparr>piconLinks := Map.empty, linksMade := 0, servRefPartsFold := None\<rparr>)
           servrefFile = (Completed, s2)"
    and sf: "sf = clean e s2"
    by (rule run_Completed)
  let ?s0 = "s0\<lparr>piconLinks := Map.empty, linksMade := 0, servRefPartsFold := None\<rparr>"
  from init_fields(2) [OF i] obtain s1 where cw: "cleanWrongLinks e opts s1 = Some s0"
    and s1: "dir s1 = d" by blast
  from assms(3) s1 have "refType e (dir s1) t = configured_kind opts" by simp
  with cw assms(2) have "pending t s0" using assms(4) by (rule pending_cleanWrongLinks)
  then have "pending t ?s0" by (auto simp: pending_def init_fields(1) [OF i])
  note p0 = this
  from m have st: "steps e opts ?s0 s2" by (rule makeLinks_loop_steps) (rule steps.here)
  from st assms(4) p0 have p2: "pending t s2" by (rule pending_steps)
  from assms(5) sf have "piconLinks s2 t = None" by simp
  with p2 assms(4) have gone: "map_of (dir sf) t = None"
    unfolding sf by (rule pending_clean)
  have "map_of (dir sf) u = map_of d u" if "refType e d u = IS_FILE" for u
  proof -
    from that obtain J where J: "map_of d u = Some (Reg J)" "st_nlink e d J = 1"
      unfolding refType_FILE_iff by blast
    from kept_run [OF J assms(6), of servrefFile] assms(1) J(1) show ?thesis
      by (simp add: kept_def)
  qed
  with gone show ?thesis by blast
qed


theorem C4_stale_link_removed_witness:
  "fst (run example_env (no_options\<lparr>full := True\<rparr>) [good_line] plain_dir) = Completed
   \<and> has_png_ext ''old.png''
   \<and> refType example_env plain_dir ''old.png'' = configured_kind (no_options\<lparr>full := True\<rparr>)
   \<and> rm_ok example_env ''old.png''
   \<and> piconLinks (snd (run example_env (no_options\<lparr>full := True\<rparr>) [good_line] plain_dir))
        ''old.png'' = None
   \<and> useHardLinks (no_options\<lparr>full := True\<rparr>) = False
   \<and> refType example_env plain_dir ''1_0_1_4A_6_85_0_0_0_0.png'' = IS_FILE
   \<and> map_of (dir (snd (run example_env (no_options\<lparr>full := True\<rparr>) [good_line] plain_dir)))
        ''old.png'' = None
   \<and> map_of (dir (snd (run example_env (no_options\<lparr>full := True\<rparr>) [good_line] plain_dir)))
        ''1_0_1_4A_6_85_0_0_0_0.png'' = Some (Reg (2, 7))"
proof -
  let ?run = "run example_env (no_options\<lparr>full := True\<rparr>) [good_line] plain_dir"
  have a: "fst ?run = Completed" by code_simp
  then have r: "?run = (Completed, snd ?run)" by (simp add: prod_eq_iff)
  have b: "has_png_ext ''old.png''" by (simp add: has_png_ext_def splitext_def)
  have c: "refType example_env plain_dir ''old.png''
        = configured_kind (no_options\<lparr>full := True\<rparr>)" by code_simp
  have d: "rm_ok example_env ''old.png''" by (simp add: example_env_def)
  have f: "piconLinks (snd ?run) ''old.png'' = None" by code_simp
  have g: "useHardLinks (no_options\<lparr>full := True\<rparr>) \<longrightarrow> wf_env example_env"
    by (simp add: no_options_def)
  have g': "useHardLinks (no_options\<lparr>full := True\<rparr>) = False"
    by (simp add: no_options_def)
  have h: "refType example_env plain_dir ''1_0_1_4A_6_85_0_0_0_0.png'' = IS_FILE"
    by code_simp
  have m: "map_of plain_dir ''1_0_1_4A_6_85_0_0_0_0.png'' = Some (Reg (2, 7))"
    by (simp add: plain_dir_def)
  note inst = C4_stale_link_removed [OF r b c d f g]
  from inst have c1: "map_of (dir (snd ?run)) ''old.png'' = None" by blast
  from inst h m have c2: "map_of (dir (snd ?run)) ''1_0_1_4A_6_85_0_0_0_0.png''
      = Some (Reg (2, 7))"
    by simp
  show ?thesis by (intro conjI a b c d f g' h c1 c2)
qed

subsection \<open>Obtained targets are links to their icons\<close>







lemma reconcile_piconFiles [simp]:
  "piconFiles (reconcile e opts servRef picon s srp) = piconFiles s"
proof -
  define s' where "s' = reconcile e opts servRef picon s srp"
  define u where "u = target_name srp"
  from s'_def u_def have "piconFiles s' = piconFiles s"
    by (cases rule: reconcile_cases) auto
  then show ?thesis by (simp add: s'_def)
qed














subsection \<open>A baseline hard link that becomes a plain file during the run\<close>

text \<open>
  C2. In hard-link mode, with the two names of \<open>pair_dir\<close>: both are baseline hard links
  when the run starts. The record of \<open>aa_line\<close> replaces the first name, which leaves
  the second name with one link: when the record of \<open>bb_line\<close> reaches it, it exists as
  a plain regular file (\<open>refType\<close> says \<open>IS_FILE\<close>). The reconciliation pass skips it and
  prints the override, and it is recorded in \<open>overrides\<close>; but it is still in
  \<open>origPiconLinks\<close>, and the \<open>clean()\<close> at the end of the run removes it: the directory
  is left with the first name only.
\<close>

theorem C2_override_removed_by_clean:
  "refType example_env pair_dir ''1_0_1_BB.png'' = IS_HLINK
   \<and> (case process_line example_env hard_options pair_start aa_line of
         Inl err \<Rightarrow> False
       | Inr s \<Rightarrow> path_exists example_env (dir s) ''1_0_1_BB.png''
                 \<and> refType example_env (dir s) ''1_0_1_BB.png'' = IS_FILE
                 \<and> ''1_0_1_BB.png'' \<notin> overrides s)
   \<and> fst (run example_env hard_options [aa_line, bb_line] pair_dir) = Completed
   \<and> log (snd (run example_env hard_options [aa_line, bb_line] pair_dir))
       = [Removing 0, Overridden ''sbs'' ''1_0_1_BB.png'', LinksMade 1, Removing 1]
   \<and> ''1_0_1_BB.png'' \<in> overrides (snd (run example_env hard_options [aa_line, bb_line] pair_dir))
   \<and> dir (snd (run example_env hard_options [aa_line, bb_line] pair_dir))
       = [(''1_0_1_AA.png'', Reg (1, 10))]"
  by code_simp

text \<open>
  C3. The same run, and then the whole run once more on the directory that the first
  run left, with the same database, inventory and options and nothing changed in
  between: the first run ends with the first name only (it removed the second name
  after having skipped it as an override), so the second run creates the link of the
  second record. It changes the directory and reports one link made.
\<close>

theorem C3_second_run_makes_a_link:
  "fst (run example_env hard_options [aa_line, bb_line] pair_dir) = Completed
   \<and> dir (snd (run example_env hard_options [aa_line, bb_line] pair_dir))
       = [(''1_0_1_AA.png'', Reg (1, 10))]
   \<and> fst (run example_env hard_options [aa_line, bb_line] [(''1_0_1_AA.png'', Reg (1, 10))])
       = Completed
   \<and> dir (snd (run example_env hard_options [aa_line, bb_line]
                  [(''1_0_1_AA.png'', Reg (1, 10))]))
       = [(''1_0_1_AA.png'', Reg (1, 10)), (''1_0_1_BB.png'', Reg (1, 12))]
   \<and> log (snd (run example_env hard_options [aa_line, bb_line]
                  [(''1_0_1_AA.png'', Reg (1, 10))]))
       = [Removing 0, LinksMade 1, Removing 0]
   \<and> linksMade (snd (run example_env hard_options [aa_line, bb_line]
                  [(''1_0_1_AA.png'', Reg (1, 10))])) = 1"
  by code_simp

end
